theory Spec2Isabelle
  imports Main "HOL-Library.Sublist" "HOL-Library.List_Lexorder" "HOL-Library.Char_ord"
    "HOL-Library.AList"
begin

section \<open>Python values and errors\<close>

text \<open>
  The index builder (\<^verbatim>\<open>build_index.py\<close>) and the index reader
  (\<^verbatim>\<open>document_getter.py\<close>) are embedded function by function. Strings are
  lists of Isabelle's characters, read as the code points below 256, and
  \<^verbatim>\<open>str.islower\<close>, \<^verbatim>\<open>str.lower\<close>, the regular expression class
  \<^verbatim>\<open>\w\<close> and white space are Python's on these code points. A Python dictionary is an association list in insertion
  order, a Python set a duplicate-free list. Every exception a function can raise is a
  value of type \<open>error\<close>, returned on the left of a sum.
\<close>

datatype error =
    NameError string
  | IndexError
  | AttributeError
  | TypeError
  | ZeroDivisionError
  | ValueError
  | FileExistsError
  | FileNotFoundError
  | IsADirectoryError

definition INDEX_FOLDER :: string where
  "INDEX_FOLDER = ''docname-index''"

definition DOC_FOLDER :: string where
  "DOC_FOLDER = ''indexed-docs''"

definition SEPARATOR :: "string \<Rightarrow> string" where
  \<comment> \<open>the argument is \<^verbatim>\<open>sys.platform\<close>\<close>
  "SEPARATOR platform = (if platform = ''win32'' then [CHR 0x5C] else ''/'')"

definition FILE_CAPACITY :: nat where
  "FILE_CAPACITY = 20000"

definition SAFE_STRING :: string where
  "SAFE_STRING = ''xmcgcg''"

text \<open>The module's global counters, which the functions declare \<^verbatim>\<open>global\<close>.\<close>

record globals =
  word_count :: nat
  doc_count :: nat
  processed_word_count :: nat
  processed_doc_count :: nat
  word_count_1percent :: nat
  doc_count_1percent :: nat

definition module_globals :: globals where
  \<comment> \<open>lines 36 to 41: the values the module starts with\<close>
  "module_globals = \<lparr>word_count = 0, doc_count = 0, processed_word_count = 0,
     processed_doc_count = 0, word_count_1percent = 0, doc_count_1percent = 0\<rparr>"

subsection \<open>Characters and strings\<close>

definition islower :: "char \<Rightarrow> bool" where
  "islower c = ((CHR ''a'' \<le> c \<and> c \<le> CHR ''z'') \<or> c \<in> set [CHR 0xAA, CHR 0xB5, CHR 0xBA]
     \<or> (CHR 0xDF \<le> c \<and> c \<le> CHR 0xF6) \<or> (CHR 0xF8 \<le> c \<and> c \<le> CHR 0xFF))"

definition isupper :: "char \<Rightarrow> bool" where
  "isupper c = ((CHR ''A'' \<le> c \<and> c \<le> CHR ''Z'')
     \<or> (CHR 0xC0 \<le> c \<and> c \<le> CHR 0xD6) \<or> (CHR 0xD8 \<le> c \<and> c \<le> CHR 0xDE))"

definition isdigit :: "char \<Rightarrow> bool" where
  \<comment> \<open>the decimal digits, which \<^verbatim>\<open>int\<close> reads\<close>
  "isdigit c = (CHR ''0'' \<le> c \<and> c \<le> CHR ''9'')"

definition isword :: "char \<Rightarrow> bool" where
  \<comment> \<open>the class \<^verbatim>\<open>\w\<close>\<close>
  "isword c = (islower c \<or> isupper c \<or> isdigit c \<or> c = CHR ''_''
     \<or> c \<in> set [CHR 0xB2, CHR 0xB3, CHR 0xB9, CHR 0xBC, CHR 0xBD, CHR 0xBE])"

definition isspace :: "char \<Rightarrow> bool" where
  "isspace c = (c \<in> set [CHR 0x20, CHR 0x09, CHR 0x0A, CHR 0x0B, CHR 0x0C, CHR 0x0D,
                           CHR 0x1C, CHR 0x1D, CHR 0x1E, CHR 0x1F, CHR 0x85, CHR 0xA0])"

definition lower_char :: "char \<Rightarrow> char" where
  "lower_char c =
     (case map_of (zip (''ABCDEFGHIJKLMNOPQRSTUVWXYZ'' @
                        [CHR 0xC0, CHR 0xC1, CHR 0xC2, CHR 0xC3, CHR 0xC4, CHR 0xC5, CHR 0xC6, CHR 0xC7,
                         CHR 0xC8, CHR 0xC9, CHR 0xCA, CHR 0xCB, CHR 0xCC, CHR 0xCD, CHR 0xCE, CHR 0xCF,
                         CHR 0xD0, CHR 0xD1, CHR 0xD2, CHR 0xD3, CHR 0xD4, CHR 0xD5, CHR 0xD6, CHR 0xD8,
                         CHR 0xD9, CHR 0xDA, CHR 0xDB, CHR 0xDC, CHR 0xDD, CHR 0xDE])
                       (''abcdefghijklmnopqrstuvwxyz'' @
                        [CHR 0xE0, CHR 0xE1, CHR 0xE2, CHR 0xE3, CHR 0xE4, CHR 0xE5, CHR 0xE6, CHR 0xE7,
                         CHR 0xE8, CHR 0xE9, CHR 0xEA, CHR 0xEB, CHR 0xEC, CHR 0xED, CHR 0xEE, CHR 0xEF,
                         CHR 0xF0, CHR 0xF1, CHR 0xF2, CHR 0xF3, CHR 0xF4, CHR 0xF5, CHR 0xF6, CHR 0xF8,
                         CHR 0xF9, CHR 0xFA, CHR 0xFB, CHR 0xFC, CHR 0xFD, CHR 0xFE])) c of
        None \<Rightarrow> c
      | Some l \<Rightarrow> l)"

definition lower :: "string \<Rightarrow> string" where
  "lower s = map lower_char s"

text \<open>
  \<open>split_runs sep s\<close> is \<^verbatim>\<open>filter(bool, re.split(sep+, s))\<close> for a character class
  \<open>sep\<close>, and \<^verbatim>\<open>s.split()\<close> for white space: the maximal runs of characters
  outside the class, in order.
\<close>

fun split_runs_acc :: "(char \<Rightarrow> bool) \<Rightarrow> string \<Rightarrow> string \<Rightarrow> string list" where
  "split_runs_acc sep cur [] = (if cur = [] then [] else [cur])"
| "split_runs_acc sep cur (c # cs) =
     (if sep c then (if cur = [] then [] else [cur]) @ split_runs_acc sep [] cs
      else split_runs_acc sep (cur @ [c]) cs)"

definition split_runs :: "(char \<Rightarrow> bool) \<Rightarrow> string \<Rightarrow> string list" where
  "split_runs sep s = split_runs_acc sep [] s"

definition split_ws :: "string \<Rightarrow> string list" where
  \<comment> \<open>\<^verbatim>\<open>str.split()\<close> with no argument\<close>
  "split_ws s = split_runs isspace s"

definition strip :: "string \<Rightarrow> string" where
  \<comment> \<open>\<^verbatim>\<open>str.strip()\<close> with no argument\<close>
  "strip s = rev (dropWhile isspace (rev (dropWhile isspace s)))"

fun join :: "string \<Rightarrow> string list \<Rightarrow> string" where
  "join sep [] = []"
| "join sep [x] = x"
| "join sep (x # y # ys) = x @ sep @ join sep (y # ys)"

text \<open>\<^verbatim>\<open>str.replace\<close>: the occurrences of a non-empty pattern, left to right.\<close>

fun replace :: "string \<Rightarrow> string \<Rightarrow> string \<Rightarrow> string" where
  "replace pat rep [] = []"
| "replace pat rep (c # cs) =
     (if pat \<noteq> [] \<and> prefix pat (c # cs)
      then rep @ replace pat rep (drop (length pat) (c # cs))
      else c # replace pat rep cs)"

definition transform_brackets :: "string \<Rightarrow> string" where
  "transform_brackets target = replace ''-RRB-'' '')'' (replace ''-LRB-'' ''('' target)"

text \<open>\<^verbatim>\<open>str(n)\<close> for a natural number.\<close>

fun dec_digits :: "nat \<Rightarrow> string" where
  "dec_digits n =
     (if n < 10 then [''0123456789'' ! n]
      else dec_digits (n div 10) @ [''0123456789'' ! (n mod 10)])"

declare dec_digits.simps [simp del]

definition str_int :: "int \<Rightarrow> string" where
  "str_int i = (if i < 0 then CHR ''-'' # dec_digits (nat (- i)) else dec_digits (nat i))"

subsection \<open>The hash path\<close>

text \<open>
  \<^verbatim>\<open>hashlib.sha1\<close> is a library function. Its digest, read as a number, is the
  parameter \<open>H\<close>; \<open>sha1_hash\<close> renders it as \<^verbatim>\<open>hexdigest\<close> does, in forty
  lower-case hexadecimal digits.
\<close>

definition hex_digit :: "nat \<Rightarrow> char" where
  "hex_digit d = ''0123456789abcdef'' ! (d mod 16)"

definition sha1_hash :: "(string \<Rightarrow> nat) \<Rightarrow> string \<Rightarrow> string" where
  "sha1_hash H target = map (\<lambda>i. hex_digit (H target div 16 ^ (39 - i))) [0..<40]"

section \<open>The index trees\<close>

text \<open>
  A tree node is a dictionary from hash digits to children. A child that holds the key
  \<^verbatim>\<open>SAFE_STRING\<close> is a leaf: its other keys are the stored words (or document names)
  and the value under \<^verbatim>\<open>SAFE_STRING\<close> is the running total. Any other child is a
  node again.
\<close>

datatype 'p node =
    Leaf "(string \<times> 'p) list" nat
  | Internal "(char \<times> 'p node) list"

type_synonym NameSet = "string list"
type_synonym IndexNode = "(char \<times> NameSet node) list"
type_synonym Sentences = "(int \<times> string) list"
type_synonym DocNode = "(char \<times> Sentences node) list"

text \<open>
  \<open>expand_loop\<close> is the loop of \<^verbatim>\<open>expand_indices\<close> and of \<^verbatim>\<open>expand_docs\<close>,
  which differ in the names of their variables only: \<open>result\<close> maps a digit to the
  new leaf's entries and running total.
\<close>

fun expand_loop :: "(string \<Rightarrow> nat) \<Rightarrow> (string \<times> 'a list) list \<Rightarrow> nat \<Rightarrow>
    (char \<times> (string \<times> 'a list) list \<times> nat) list \<Rightarrow>
    error + (char \<times> (string \<times> 'a list) list \<times> nat) list" where
  "expand_loop H [] start_index result = Inr result"
| "expand_loop H ((key, payload) # rest) start_index result =
     (if length (sha1_hash H key) \<le> start_index then Inl IndexError
      else if key = SAFE_STRING then Inl TypeError
      else
        let hash_digit = sha1_hash H key ! start_index;
            (entries, tot) =
              (case map_of result hash_digit of None \<Rightarrow> ([], 0) | Some leaf \<Rightarrow> leaf)
        in expand_loop H rest start_index
             (AList.update hash_digit
                (AList.update key payload entries, tot + (length payload + 1)) result))"

definition as_leaves ::
    "(char \<times> (string \<times> 'a list) list \<times> nat) list \<Rightarrow> (char \<times> 'a list node) list" where
  "as_leaves result = map (\<lambda>(hash_digit, entries, tot). (hash_digit, Leaf entries tot)) result"

definition expand_indices ::
    "(string \<Rightarrow> nat) \<Rightarrow> (string \<times> NameSet) list \<Rightarrow> nat \<Rightarrow> error + IndexNode" where
  "expand_indices H doc_name_dict start_index =
     map_sum id as_leaves (expand_loop H doc_name_dict start_index [])"

definition expand_docs ::
    "(string \<Rightarrow> nat) \<Rightarrow> (string \<times> Sentences) list \<Rightarrow> nat \<Rightarrow> error + DocNode" where
  "expand_docs H sent_dict start_index =
     map_sum id as_leaves (expand_loop H sent_dict start_index [])"

text \<open>
  The statements of \<^verbatim>\<open>add_doc_name_word\<close> (lines 105 to 121) read the tree node
  through the name \<^verbatim>\<open>index_node\<close>. \<open>add_doc_name_word_body\<close> is these statements
  with that name denoting the node handed in; the nested call of line 121 hands in
  \<^verbatim>\<open>value\<close>. The updated node is returned with the updated globals.
\<close>

function add_doc_name_word_body :: "(string \<Rightarrow> nat) \<Rightarrow> globals \<Rightarrow> string \<Rightarrow> string \<Rightarrow>
    IndexNode \<Rightarrow> nat \<Rightarrow> error + (globals \<times> IndexNode)" where
  "add_doc_name_word_body H g doc_name word index_node start_index =
     (if length (sha1_hash H word) \<le> start_index then Inl IndexError
      else
        let hash_digit = sha1_hash H word ! start_index in
        case (case map_of index_node hash_digit of None \<Rightarrow> Leaf [] 0 | Some v \<Rightarrow> v) of
          Leaf entries tot \<Rightarrow>
            if word = SAFE_STRING then Inl AttributeError
            else
              let g1 = (if word \<in> fst ` set entries then g
                        else g\<lparr>word_count := word_count g + 1\<rparr>);
                  names = (case map_of entries word of None \<Rightarrow> [] | Some ns \<Rightarrow> ns);
                  names1 = (if doc_name \<in> set names then names else names @ [doc_name]);
                  entries1 = AList.update word names1 entries;
                  tot1 = tot + 1
              in if tot1 > FILE_CAPACITY \<and> FILE_CAPACITY \<ge> length names1 + 1
                 then (case expand_indices H entries1 (start_index + 1) of
                         Inl e \<Rightarrow> Inl e
                       | Inr children \<Rightarrow>
                           Inr (g1, AList.update hash_digit (Internal children) index_node))
                 else Inr (g1, AList.update hash_digit (Leaf entries1 tot1) index_node)
        | Internal value \<Rightarrow>
            (case add_doc_name_word_body H g doc_name word value (start_index + 1) of
               Inl e \<Rightarrow> Inl e
             | Inr (g1, value1) \<Rightarrow>
                 Inr (g1, AList.update hash_digit (Internal value1) index_node)))"
  by pat_completeness auto
termination
  by (relation "measure (\<lambda>(H, g, doc_name, word, index_node, start_index).
        length (sha1_hash H word) - start_index)") auto

declare add_doc_name_word_body.simps [simp del]

text \<open>
  The function as the module defines it: its third parameter is called
  \<^verbatim>\<open>index_dict\<close>, so the only node in scope at line 107 is bound to that name, and
  the name \<^verbatim>\<open>index_node\<close> is looked up among the names in scope.
\<close>

definition add_doc_name_word :: "(string \<Rightarrow> nat) \<Rightarrow> globals \<Rightarrow> string \<Rightarrow> string \<Rightarrow>
    IndexNode \<Rightarrow> nat \<Rightarrow> error + (globals \<times> IndexNode)" where
  "add_doc_name_word H g doc_name word index_dict start_index =
     (if length (sha1_hash H word) \<le> start_index then Inl IndexError
      else case map_of [(''index_dict'', index_dict)] ''index_node'' of
             None \<Rightarrow> Inl (NameError ''index_node'')
           | Some index_node \<Rightarrow>
               add_doc_name_word_body H g doc_name word index_node start_index)"

text \<open>
  \<^verbatim>\<open>add_doc_name\<close>: the words of the name, lower-cased, each once. The iteration
  order of the Python set is not specified; the model takes the order of first
  occurrence.
\<close>

fun add_doc_name_loop :: "(string \<Rightarrow> nat) \<Rightarrow> globals \<Rightarrow> string \<Rightarrow> string list \<Rightarrow>
    IndexNode \<Rightarrow> error + (globals \<times> IndexNode)" where
  "add_doc_name_loop H g doc_name [] index_node = Inr (g, index_node)"
| "add_doc_name_loop H g doc_name (word # ws) index_node =
     (case add_doc_name_word H g doc_name word index_node 0 of
        Inl e \<Rightarrow> Inl e
      | Inr (g1, index_node1) \<Rightarrow> add_doc_name_loop H g1 doc_name ws index_node1)"

definition add_doc_name :: "(string \<Rightarrow> nat) \<Rightarrow> globals \<Rightarrow> string \<Rightarrow> IndexNode \<Rightarrow>
    error + (globals \<times> IndexNode)" where
  "add_doc_name H g doc_name index_node =
     add_doc_name_loop H g doc_name
       (remdups (map lower (split_runs (\<lambda>c. \<not> (isword c \<and> c \<noteq> CHR ''_'')) doc_name)))
       index_node"

text \<open>
  \<^verbatim>\<open>add_doc_content\<close> in the same two layers: its statements (lines 168 to 183) read
  the node through the name \<^verbatim>\<open>doc_dict\<close>, and its parameter is called
  \<^verbatim>\<open>doc_node\<close>.
\<close>

function add_doc_content_body :: "(string \<Rightarrow> nat) \<Rightarrow> globals \<Rightarrow> string \<Rightarrow> Sentences \<Rightarrow>
    DocNode \<Rightarrow> nat \<Rightarrow> error + (globals \<times> DocNode)" where
  "add_doc_content_body H g doc_name doc_content doc_dict start_index =
     (if length (sha1_hash H doc_name) \<le> start_index then Inl IndexError
      else
        let hash_digit = sha1_hash H doc_name ! start_index in
        case (case map_of doc_dict hash_digit of None \<Rightarrow> Leaf [] 0 | Some v \<Rightarrow> v) of
          Leaf entries tot \<Rightarrow>
            if doc_name = SAFE_STRING then Inl TypeError
            else
              let g1 = g\<lparr>doc_count := doc_count g + 1\<rparr>;
                  entries1 = AList.update doc_name doc_content entries;
                  dict_len = length doc_content + 1;
                  tot1 = tot + dict_len
              in if tot1 > FILE_CAPACITY \<and> FILE_CAPACITY \<ge> dict_len
                 then (case expand_docs H entries1 (start_index + 1) of
                         Inl e \<Rightarrow> Inl e
                       | Inr children \<Rightarrow>
                           Inr (g1, AList.update hash_digit (Internal children) doc_dict))
                 else Inr (g1, AList.update hash_digit (Leaf entries1 tot1) doc_dict)
        | Internal value \<Rightarrow>
            (case add_doc_content_body H g doc_name doc_content value (start_index + 1) of
               Inl e \<Rightarrow> Inl e
             | Inr (g1, value1) \<Rightarrow>
                 Inr (g1, AList.update hash_digit (Internal value1) doc_dict)))"
  by pat_completeness auto
termination
  by (relation "measure (\<lambda>(H, g, doc_name, doc_content, doc_dict, start_index).
        length (sha1_hash H doc_name) - start_index)") auto

declare add_doc_content_body.simps [simp del]

definition add_doc_content :: "(string \<Rightarrow> nat) \<Rightarrow> globals \<Rightarrow> string \<Rightarrow> Sentences \<Rightarrow>
    DocNode \<Rightarrow> nat \<Rightarrow> error + (globals \<times> DocNode)" where
  "add_doc_content H g doc_name doc_content doc_node start_index =
     (if length (sha1_hash H doc_name) \<le> start_index then Inl IndexError
      else case map_of [(''doc_node'', doc_node)] ''doc_dict'' of
             None \<Rightarrow> Inl (NameError ''doc_dict'')
           | Some doc_dict \<Rightarrow>
               add_doc_content_body H g doc_name doc_content doc_dict start_index)"

section \<open>The file system\<close>

text \<open>
  A path names an entry through its components. On \<^verbatim>\<open>win32\<close> both the slash and
  the backslash separate components; elsewhere only the slash does, and a backslash is
  an ordinary character of a file name. A file holds the text written to it.
\<close>

datatype fs_entry = Dir | File string

type_synonym filesystem = "string list \<Rightarrow> fs_entry option"

definition is_sep :: "string \<Rightarrow> char \<Rightarrow> bool" where
  "is_sep platform c = (c = CHR ''/'' \<or> (platform = ''win32'' \<and> c = CHR 0x5C))"

definition path_components :: "string \<Rightarrow> string \<Rightarrow> string list" where
  "path_components platform path = split_runs (is_sep platform) path"

definition isdir :: "string \<Rightarrow> filesystem \<Rightarrow> string \<Rightarrow> bool" where
  "isdir platform fs path = (fs (path_components platform path) = Some Dir)"

definition isfile :: "string \<Rightarrow> filesystem \<Rightarrow> string \<Rightarrow> bool" where
  "isfile platform fs path =
     (case fs (path_components platform path) of Some (File text) \<Rightarrow> True | _ \<Rightarrow> False)"

definition read_text :: "string \<Rightarrow> filesystem \<Rightarrow> string \<Rightarrow> string" where
  "read_text platform fs path =
     (case fs (path_components platform path) of Some (File text) \<Rightarrow> text | _ \<Rightarrow> [])"

text \<open>
  \<^verbatim>\<open>for line in file_obj\<close>: the lines of a text. In text mode a line ends at a
  line feed, at a carriage return, or at the two in a row, and is handed over with a
  line feed at its end.
\<close>

fun file_lines_acc :: "string \<Rightarrow> string \<Rightarrow> string list" where
  "file_lines_acc cur [] = (if cur = [] then [] else [cur])"
| "file_lines_acc cur [c] =
     (if c = CHR 0x0A \<or> c = CHR 0x0D then [cur @ [CHR 0x0A]] else [cur @ [c]])"
| "file_lines_acc cur (c # d # cs) =
     (if c = CHR 0x0D \<and> d = CHR 0x0A then (cur @ [CHR 0x0A]) # file_lines_acc [] cs
      else if c = CHR 0x0A \<or> c = CHR 0x0D then (cur @ [CHR 0x0A]) # file_lines_acc [] (d # cs)
      else file_lines_acc (cur @ [c]) (d # cs))"

definition file_lines :: "string \<Rightarrow> string list" where
  "file_lines text = file_lines_acc [] text"

text \<open>
  \<^verbatim>\<open>os.mkdir\<close> and \<^verbatim>\<open>open(filename, "w")\<close> followed by the writes of the
  \<^verbatim>\<open>with\<close> block, which leaves the text written so far in the file also when the
  block is left by an exception.
\<close>

definition parent_is_dir :: "filesystem \<Rightarrow> string list \<Rightarrow> bool" where
  "parent_is_dir fs p = (butlast p = [] \<or> fs (butlast p) = Some Dir)"

definition mkdir :: "string \<Rightarrow> filesystem \<Rightarrow> string \<Rightarrow> error + filesystem" where
  "mkdir platform fs path =
     (let p = path_components platform path in
      if p = [] \<or> fs p \<noteq> None then Inl FileExistsError
      else if \<not> parent_is_dir fs p then Inl FileNotFoundError
      else Inr (fs(p \<mapsto> Dir)))"

definition write_file :: "string \<Rightarrow> filesystem \<Rightarrow> string \<Rightarrow> string \<Rightarrow> error + filesystem" where
  "write_file platform fs path text =
     (let p = path_components platform path in
      if p = [] \<or> fs p = Some Dir then Inl IsADirectoryError
      else if \<not> parent_is_dir fs p then Inl FileNotFoundError
      else Inr (fs(p \<mapsto> File text)))"

section \<open>Writing the trees\<close>

text \<open>
  The loop over the words of a leaf in \<^verbatim>\<open>build_indices\<close> (lines 199 to 208): the
  text written so far travels with the globals. The remainder of line 205 raises
  ZeroDivisionError when \<^verbatim>\<open>word_count_1percent\<close> is zero; the progress message
  itself is not modelled.
\<close>

definition word_entry :: "string \<Rightarrow> NameSet \<Rightarrow> string" where
  "word_entry word names =
     word @ '' '' @ dec_digits (length names) @ [CHR 0x0A]
     @ concat (map (\<lambda>doc_name. doc_name @ [CHR 0x0A]) (sort names))"

fun write_words :: "globals \<Rightarrow> (string \<times> NameSet) list \<Rightarrow> string \<Rightarrow>
    error option \<times> globals \<times> string" where
  "write_words g [] text = (None, g, text)"
| "write_words g ((word, names) # rest) text =
     (let text1 = text @ word_entry word names;
          g1 = g\<lparr>processed_word_count := processed_word_count g + 1\<rparr>
      in if word_count_1percent g1 = 0 then (Some ZeroDivisionError, g1, text1)
         else write_words g1 rest text1)"

text \<open>
  \<^verbatim>\<open>build_indices\<close>. The result holds the exception that ended the call, if any,
  and the globals and the file system as the call left them.
\<close>

fun build_indices :: "string \<Rightarrow> globals \<Rightarrow> IndexNode \<Rightarrow> string \<Rightarrow> filesystem \<Rightarrow>
    error option \<times> globals \<times> filesystem" where
  "build_indices platform g [] index_folder fs = (None, g, fs)"
| "build_indices platform g ((hash_digit, Leaf entries tot) # rest) index_folder fs =
     (let filename = index_folder @ SEPARATOR platform @ [hash_digit] @ ''.txt'';
          (err, g1, text) = write_words g entries []
      in case write_file platform fs filename text of
           Inl e \<Rightarrow> (Some e, g, fs)
         | Inr fs1 \<Rightarrow>
             (case err of
                Some e \<Rightarrow> (Some e, g1, fs1)
              | None \<Rightarrow> build_indices platform g1 rest index_folder fs1))"
| "build_indices platform g ((hash_digit, Internal children) # rest) index_folder fs =
     (let folder = index_folder @ SEPARATOR platform @ [hash_digit]
      in case mkdir platform fs folder of
           Inl e \<Rightarrow> (Some e, g, fs)
         | Inr fs1 \<Rightarrow>
             (case build_indices platform g children folder fs1 of
                (Some e, g1, fs2) \<Rightarrow> (Some e, g1, fs2)
              | (None, g1, fs2) \<Rightarrow> build_indices platform g1 rest index_folder fs2))"

text \<open>\<^verbatim>\<open>build_docs\<close> in the same way (lines 229 to 238).\<close>

definition doc_entry :: "string \<Rightarrow> Sentences \<Rightarrow> string" where
  "doc_entry doc_name doc_content =
     doc_name @ [CHR 0x0A]
     @ concat (map (\<lambda>(sent_no, sentence). str_int sent_no @ '' '' @ transform_brackets sentence)
                 (sort_key fst doc_content))"

fun write_docs :: "globals \<Rightarrow> (string \<times> Sentences) list \<Rightarrow> string \<Rightarrow>
    error option \<times> globals \<times> string" where
  "write_docs g [] text = (None, g, text)"
| "write_docs g ((doc_name, doc_content) # rest) text =
     (let text1 = text @ doc_entry doc_name doc_content;
          g1 = g\<lparr>processed_doc_count := processed_doc_count g + 1\<rparr>
      in if doc_count_1percent g1 = 0 then (Some ZeroDivisionError, g1, text1)
         else write_docs g1 rest text1)"

fun build_docs :: "string \<Rightarrow> globals \<Rightarrow> DocNode \<Rightarrow> string \<Rightarrow> filesystem \<Rightarrow>
    error option \<times> globals \<times> filesystem" where
  "build_docs platform g [] doc_folder fs = (None, g, fs)"
| "build_docs platform g ((hash_digit, Leaf entries tot) # rest) doc_folder fs =
     (let filename = doc_folder @ SEPARATOR platform @ [hash_digit] @ ''.txt'';
          (err, g1, text) = write_docs g entries []
      in case write_file platform fs filename text of
           Inl e \<Rightarrow> (Some e, g, fs)
         | Inr fs1 \<Rightarrow>
             (case err of
                Some e \<Rightarrow> (Some e, g1, fs1)
              | None \<Rightarrow> build_docs platform g1 rest doc_folder fs1))"
| "build_docs platform g ((hash_digit, Internal children) # rest) doc_folder fs =
     (let folder = doc_folder @ SEPARATOR platform @ [hash_digit]
      in case mkdir platform fs folder of
           Inl e \<Rightarrow> (Some e, g, fs)
         | Inr fs1 \<Rightarrow>
             (case build_docs platform g children folder fs1 of
                (Some e, g1, fs2) \<Rightarrow> (Some e, g1, fs2)
              | (None, g1, fs2) \<Rightarrow> build_docs platform g1 rest doc_folder fs2))"

text \<open>No entry of the working directory has a backslash in its name.\<close>

definition posix_names :: "filesystem \<Rightarrow> bool" where
  "posix_names fs = (\<forall>k. fs k \<noteq> None \<longrightarrow> k \<noteq> [] \<and> CHR 0x5C \<notin> set (hd k))"

section \<open>The index reader\<close>

text \<open>The scan of a leaf file in \<^verbatim>\<open>search_word\<close> (lines 41 to 53).\<close>

fun scan_names :: "string \<Rightarrow> bool \<Rightarrow> string list \<Rightarrow> string list \<Rightarrow> string list" where
  "scan_names word word_found doc_name_list [] = doc_name_list"
| "scan_names word word_found doc_name_list (line # rest) =
     (let line_items = split_ws (strip line);
          line_len = length line_items
      in if word_found
         then (if line_len = 1
               then scan_names word word_found (doc_name_list @ [line_items ! 0]) rest
               else doc_name_list)
         else (if line_len = 2 \<and> line_items ! 0 = lower word
               then scan_names word True doc_name_list rest
               else scan_names word word_found doc_name_list rest))"

text \<open>
  The descent of \<^verbatim>\<open>search_word\<close> (lines 35 to 57). The second component of the
  result lists the paths handed to \<^verbatim>\<open>os.path.isdir\<close>, in order.
\<close>

fun search_word_loop :: "string \<Rightarrow> filesystem \<Rightarrow> string \<Rightarrow> string \<Rightarrow> string \<Rightarrow>
    string list \<times> string list" where
  "search_word_loop platform fs word path [] = ([], [])"
| "search_word_loop platform fs word path (hash_digit # rest) =
     (let path1 = path @ [CHR 0x5C] @ [hash_digit] in
      if isdir platform fs path1
      then (let (doc_name_list, probed) = search_word_loop platform fs word path1 rest
            in (doc_name_list, path1 # probed))
      else if isfile platform fs (path1 @ ''.txt'')
      then (scan_names word False [] (file_lines (read_text platform fs (path1 @ ''.txt''))),
            [path1])
      else ([], [path1]))"

definition search_word :: "string \<Rightarrow> filesystem \<Rightarrow> (string \<Rightarrow> nat) \<Rightarrow> string \<Rightarrow> string list" where
  "search_word platform fs H word =
     fst (search_word_loop platform fs word INDEX_FOLDER (sha1_hash H (lower word)))"

text \<open>\<^verbatim>\<open>int(s)\<close>: white space around an optional sign and decimal digits, which single
  underscores may separate.\<close>

fun digits_ok :: "string \<Rightarrow> bool" where
  "digits_ok [] = False"
| "digits_ok [c] = isdigit c"
| "digits_ok (c # d # cs) =
     (isdigit c \<and> (if d = CHR ''_'' then digits_ok cs else digits_ok (d # cs)))"

definition digits_value :: "string \<Rightarrow> nat" where
  "digits_value ds = foldl (\<lambda>a c. 10 * a + (of_char c - 48)) 0 (filter isdigit ds)"

definition py_int :: "string \<Rightarrow> error + int" where
  "py_int s =
     (let t = strip s;
          negative = (t \<noteq> [] \<and> hd t = CHR ''-'');
          ds = (if t \<noteq> [] \<and> (hd t = CHR ''-'' \<or> hd t = CHR ''+'') then tl t else t)
      in if digits_ok ds
         then Inr (if negative then - int (digits_value ds) else int (digits_value ds))
         else Inl ValueError)"

text \<open>\<^verbatim>\<open>line.find(" ")\<close>, with \<open>None\<close> for \<^verbatim>\<open>-1\<close>.\<close>

fun find_space :: "string \<Rightarrow> nat option" where
  "find_space [] = None"
| "find_space (c # cs) = (if c = CHR '' '' then Some 0 else map_option Suc (find_space cs))"

text \<open>The scan of a leaf file in \<^verbatim>\<open>get_doc_content\<close> (lines 168 to 181).\<close>

fun scan_sentences :: "string \<Rightarrow> bool \<Rightarrow> (int \<times> string) list \<Rightarrow> string list \<Rightarrow>
    error + (int \<times> string) list" where
  "scan_sentences doc_name name_found doc_content [] = Inr doc_content"
| "scan_sentences doc_name name_found doc_content (line0 # rest) =
     (let line = strip line0
      in if name_found
         then (case find_space line of
                 Some space_index \<Rightarrow>
                   (case py_int (take space_index line) of
                      Inl e \<Rightarrow> Inl e
                    | Inr sent_no \<Rightarrow>
                        scan_sentences doc_name name_found
                          (doc_content @ [(sent_no, drop (space_index + 1) line)]) rest)
               | None \<Rightarrow> Inr doc_content)
         else (if line = doc_name
               then scan_sentences doc_name True doc_content rest
               else scan_sentences doc_name name_found doc_content rest))"

fun get_doc_content_loop :: "string \<Rightarrow> filesystem \<Rightarrow> string \<Rightarrow> string \<Rightarrow> string \<Rightarrow>
    (error + (int \<times> string) list) \<times> string list" where
  "get_doc_content_loop platform fs doc_name path [] = (Inr [], [])"
| "get_doc_content_loop platform fs doc_name path (hash_digit # rest) =
     (let path1 = path @ [CHR 0x5C] @ [hash_digit] in
      if isdir platform fs path1
      then (let (doc_content, probed) = get_doc_content_loop platform fs doc_name path1 rest
            in (doc_content, path1 # probed))
      else if isfile platform fs (path1 @ ''.txt'')
      then (scan_sentences doc_name False []
              (file_lines (read_text platform fs (path1 @ ''.txt''))), [path1])
      else (Inr [], [path1]))"

definition get_doc_content :: "string \<Rightarrow> filesystem \<Rightarrow> (string \<Rightarrow> nat) \<Rightarrow> string \<Rightarrow>
    error + (int \<times> string) list" where
  "get_doc_content platform fs H doc_name =
     fst (get_doc_content_loop platform fs doc_name DOC_FOLDER (sha1_hash H doc_name))"

section \<open>The sentence resolver\<close>

text \<open>
  \<^verbatim>\<open>re.sub(r"\(.*\)", "", doc_name)\<close>: from an opening bracket to the last closing
  bracket of the same line, repeatedly from the left.
\<close>

fun sub_brackets :: "string \<Rightarrow> string" where
  "sub_brackets [] = []"
| "sub_brackets (c # cs) =
     (let line = takeWhile (\<lambda>x. x \<noteq> CHR 0x0A) cs
      in if c = CHR ''('' \<and> CHR '')'' \<in> set line
         then sub_brackets
                (drop (length line - length (takeWhile (\<lambda>x. x \<noteq> CHR '')'') (rev line))) cs)
         else c # sub_brackets cs)"

text \<open>\<^verbatim>\<open>s.split("_")\<close>, which keeps empty pieces.\<close>

fun split_on_acc :: "char \<Rightarrow> string \<Rightarrow> string \<Rightarrow> string list" where
  "split_on_acc sep cur [] = [cur]"
| "split_on_acc sep cur (c # cs) =
     (if c = sep then cur # split_on_acc sep [] cs else split_on_acc sep (cur @ [c]) cs)"

definition get_words :: "string \<Rightarrow> string list" where
  "get_words doc_name =
     (let short_name = rev (dropWhile (\<lambda>c. c = CHR ''_'')
                         (rev (dropWhile (\<lambda>c. c = CHR ''_'') (sub_brackets doc_name))));
          words = split_on_acc (CHR ''_'') [] short_name
      in map lower words)"

definition get_valid_names ::
    "string list \<Rightarrow> (string \<times> string list) list \<Rightarrow> (string \<times> string list) list" where
  "get_valid_names words name_list =
     remdups (filter (\<lambda>(name, word_list). take (length word_list) words = word_list) name_list)"

text \<open>
  The loop of \<^verbatim>\<open>absorb_doc_names\<close> (lines 100 to 108). \<^verbatim>\<open>words_set.pop()\<close>
  takes an element that Python does not specify; here it takes the head of the list
  that enumerates the set.
\<close>

fun absorb_loop :: "string list \<Rightarrow> string list \<Rightarrow> string list" where
  "absorb_loop [] new_set = new_set"
| "absorb_loop (words # words_set) new_set =
     (if \<exists>remain_words \<in> set (words_set @ new_set). sublist words remain_words
      then absorb_loop words_set new_set
      else absorb_loop words_set (new_set @ [words]))"

definition name_dict_get :: "(string \<times> string list) list \<Rightarrow> string list \<Rightarrow> string list" where
  \<comment> \<open>\<^verbatim>\<open>name_dict[word_list]\<close> of the \<^verbatim>\<open>defaultdict(set)\<close>\<close>
  "name_dict_get doc_names word_list =
     remdups (map fst (filter (\<lambda>(name, wl). wl = word_list) doc_names))"

definition absorb_doc_names :: "(string \<times> string list) list \<Rightarrow> string list" where
  "absorb_doc_names doc_names =
     (let words_set = remdups (map (join '' '') (remdups (map snd doc_names)));
          new_set = absorb_loop words_set []
      in remdups (concat (map (\<lambda>words. name_dict_get doc_names (split_ws words)) new_set)))"

text \<open>
  \<^verbatim>\<open>search_sentence\<close>: the first loop (lines 131 to 136) fills the two dictionaries,
  the second (lines 141 to 148) scans the positions. \<open>first_islower\<close> is
  \<^verbatim>\<open>word[0].islower()\<close>; the words are not empty.
\<close>

definition first_islower :: "string \<Rightarrow> bool" where
  "first_islower word = (case word of [] \<Rightarrow> False | c # cs \<Rightarrow> islower c)"

type_synonym NameLists = "(string \<times> (string \<times> string list) list) list"

fun lookup_words :: "string \<Rightarrow> filesystem \<Rightarrow> (string \<Rightarrow> nat) \<Rightarrow> string set \<Rightarrow> string list \<Rightarrow>
    NameLists \<Rightarrow> NameLists \<Rightarrow> NameLists \<times> NameLists" where
  "lookup_words platform fs H stop_words [] doc_names ne_doc_names = (doc_names, ne_doc_names)"
| "lookup_words platform fs H stop_words (word # rest) doc_names ne_doc_names =
     (if word \<noteq> [] \<and> word \<notin> stop_words
      then
        let found = map (\<lambda>name. (name, get_words name)) (search_word platform fs H (lower word))
        in if first_islower word
           then lookup_words platform fs H stop_words rest
                  (if lower word \<in> fst ` set doc_names then doc_names
                   else doc_names @ [(lower word, found)]) ne_doc_names
           else lookup_words platform fs H stop_words rest doc_names
                  (if lower word \<in> fst ` set ne_doc_names then ne_doc_names
                   else ne_doc_names @ [(lower word, found)])
      else lookup_words platform fs H stop_words rest doc_names ne_doc_names)"

fun scan_positions :: "NameLists \<Rightarrow> NameLists \<Rightarrow> string list \<Rightarrow>
    (string \<times> string list) list \<Rightarrow> bool \<Rightarrow> (string \<times> string list) list" where
  "scan_positions doc_names ne_doc_names [] result ne_found = result"
| "scan_positions doc_names ne_doc_names (word # rest) result ne_found =
     (let is_ne = (\<not> first_islower word);
          target_dict = (if is_ne then ne_doc_names else doc_names);
          ne_found1 = (ne_found \<or> is_ne);
          result1 = (if \<not> ne_found \<and> is_ne then [] else result)
      in case (if ne_found1 = is_ne then map_of target_dict (lower word) else None) of
           Some name_list \<Rightarrow>
             scan_positions doc_names ne_doc_names rest
               (remdups (result1 @ get_valid_names (map lower (word # rest)) name_list)) ne_found1
         | None \<Rightarrow> scan_positions doc_names ne_doc_names rest result1 ne_found1)"

definition search_sentence :: "string \<Rightarrow> filesystem \<Rightarrow> (string \<Rightarrow> nat) \<Rightarrow> string \<Rightarrow>
    string set \<Rightarrow> string list" where
  "search_sentence platform fs H sentence stop_words =
     (let words = split_runs (\<lambda>c. \<not> isword c) sentence;
          (doc_names, ne_doc_names) = lookup_words platform fs H stop_words words [] []
      in absorb_doc_names (scan_positions doc_names ne_doc_names words [] False))"

text \<open>
  Word lists whose words are not empty and hold no white space, as the words of a
  sentence are; and a set of accepted names for examples.
\<close>

definition wf_tokens :: "string list \<Rightarrow> bool" where
  "wf_tokens word_list = (\<forall>t \<in> set word_list. t \<noteq> [] \<and> (\<forall>c \<in> set t. \<not> isspace c))"

text \<open>
  The survivors as the specification words them: a name is discarded when its word list
  is a contiguous run of words of a different accepted word list.
\<close>

definition claimed_survivors :: "(string \<times> string list) list \<Rightarrow> string list" where
  "claimed_survivors doc_names =
     remdups (map fst (filter (\<lambda>(name, word_list).
        \<not> list_ex (\<lambda>(name', word_list'). word_list' \<noteq> word_list \<and> sublist word_list word_list')
            doc_names) doc_names))"

definition art_names :: NameLists where
  "art_names = [(''start'', [(''Start'', [''start''])]), (''art'', [(''Art'', [''art''])])]"

definition accepted_example :: "(string \<times> string list) list" where
  "accepted_example = [(''Soul'', [''soul'']), (''Soul_Food'', [''soul'', ''food'']),
     (''Soul_Food_(film)'', [''soul'', ''food''])]"

text \<open>
  The matches that \<^verbatim>\<open>search_sentence\<close> collects at one position, at the positions
  whose word does not start with a lower-case letter, and at the positions whose word
  does. \<open>claimed_matches\<close> follows the specification's wording instead: entity mode
  starts at the first such word that is no stop word. \<open>digests\<close> holds the SHA-1
  digests of the strings of the examples, and \<open>index_layout\<close> is an index with the leaf
  files of the words \<^verbatim>\<open>soul\<close> and \<^verbatim>\<open>food\<close>.
\<close>

definition digests :: "string \<Rightarrow> nat" where
  "digests s =
     (if s = ''soul'' then 0x0867322e7c4223c85b4c8d14b69ab8a6fc774dad
      else if s = ''food'' then 0x39ccb32d95edfdbcd882f2b01809724ec640ea16
      else if s = ''Soul'' then 0x0cae74dd2ee63f37ca2c7718b51e9671f8a0ad74
      else if s = ''Art'' then 0x308e17d2200a17ac8205cdd6c3cf19b32bfb8c26
      else if s = ''Fish'' then 0x3030e8ec7633ec1a524bb246aee7dbda6fb3e4bc
      else 0)"

definition index_layout :: filesystem where
  "index_layout = [[''docname-index''] \<mapsto> Dir,
     [''docname-index'', ''0.txt''] \<mapsto>
       File (''soul 2'' @ [CHR 0x0A] @ ''Soul'' @ [CHR 0x0A] @ ''Soul_Food'' @ [CHR 0x0A]),
     [''docname-index'', ''3.txt''] \<mapsto>
       File (''food 1'' @ [CHR 0x0A] @ ''Soul_Food'' @ [CHR 0x0A])]"

definition matches_at :: "NameLists \<Rightarrow> string list \<Rightarrow> (string \<times> string list) set" where
  "matches_at target_dict ws =
     (case ws of [] \<Rightarrow> {}
      | word # rest \<Rightarrow>
          (case map_of target_dict (lower word) of None \<Rightarrow> {}
           | Some name_list \<Rightarrow> set (get_valid_names (map lower ws) name_list)))"

fun entity_matches :: "NameLists \<Rightarrow> string list \<Rightarrow> (string \<times> string list) set" where
  "entity_matches ne_doc_names [] = {}"
| "entity_matches ne_doc_names (word # rest) =
     (if first_islower word then {} else matches_at ne_doc_names (word # rest))
     \<union> entity_matches ne_doc_names rest"

fun common_matches :: "NameLists \<Rightarrow> string list \<Rightarrow> (string \<times> string list) set" where
  "common_matches doc_names [] = {}"
| "common_matches doc_names (word # rest) =
     (if first_islower word then matches_at doc_names (word # rest) else {})
     \<union> common_matches doc_names rest"

definition claimed_entity_token :: "string set \<Rightarrow> string \<Rightarrow> bool" where
  "claimed_entity_token stop_words word = (\<not> first_islower word \<and> word \<notin> stop_words)"

definition claimed_matches ::
    "string set \<Rightarrow> NameLists \<Rightarrow> NameLists \<Rightarrow> string list \<Rightarrow> (string \<times> string list) set" where
  "claimed_matches stop_words doc_names ne_doc_names words =
     (if list_ex (claimed_entity_token stop_words) words
      then entity_matches ne_doc_names
             (dropWhile (\<lambda>w. \<not> claimed_entity_token stop_words w) words)
      else common_matches doc_names words)"

definition soul_names :: NameLists where
  "soul_names = [(''soul'', [(''Soul'', [''soul'']), (''Soul_Food'', [''soul'', ''food''])])]"

text \<open>
  A working directory that holds the two root folders and nothing else, and a name
  tree with one leaf, which lies where the digest of its word puts it.
\<close>

definition fresh_layout :: filesystem where
  "fresh_layout = [[''docname-index''] \<mapsto> Dir, [''indexed-docs''] \<mapsto> Dir]"

definition soul_tree :: IndexNode where
  "soul_tree = [(CHR ''0'', Leaf [(''soul'', [''Soul''])] 1)]"



definition child_at :: "(char \<times> 'p node) list \<Rightarrow> char \<Rightarrow> 'p node" where
  "child_at tree hash_digit =
     (case map_of tree hash_digit of None \<Rightarrow> Leaf [] 0 | Some v \<Rightarrow> v)"

definition two_sentences :: Sentences where
  "two_sentences = [(1, ''Second.'' @ [CHR 0x0A]), (0, ''First.'' @ [CHR 0x0A])]"

definition soul_doc_tree :: DocNode where
  "soul_doc_tree = [(CHR ''0'', Leaf [(''Soul'', two_sentences)] 3)]"





text \<open>The path that a lookup below \<open>root\<close> probes for the digits \<open>ds\<close>.\<close>

definition probe_path :: "string \<Rightarrow> string \<Rightarrow> string" where
  "probe_path root ds = root @ concat (map (\<lambda>d. [CHR 0x5C, d]) ds)"

text \<open>A layout with one directory level and one leaf file, for examples.\<close>

definition leaf_layout :: filesystem where
  "leaf_layout = [[''docname-index''] \<mapsto> Dir, [''docname-index'', ''0''] \<mapsto> Dir,
     [''docname-index'', ''0'', ''0.txt''] \<mapsto> File (''soul 1'' @ [CHR 0x0A] @ ''Soul'' @ [CHR 0x0A]),
     [''indexed-docs''] \<mapsto> Dir]"


section \<open>Properties\<close>

lemma sha1_hash_length: "length (sha1_hash H target) = 40"
  by (simp add: sha1_hash_def)

text \<open>
  C2. Every call of \<^verbatim>\<open>add_doc_name_word\<close> that reaches line 107, that is every call
  whose \<^verbatim>\<open>start_index\<close> is one of the forty digit positions, raises the NameError
  for \<^verbatim>\<open>index_node\<close>; every such call of \<^verbatim>\<open>add_doc_content\<close> raises the
  NameError for \<^verbatim>\<open>doc_dict\<close>; and no call of either function, on any input, returns
  a tree: no insertion completes.
\<close>

theorem add_functions_raise_NameError:
  "(start_index < 40 \<longrightarrow>
      add_doc_name_word H g doc_name word index_dict start_index = Inl (NameError ''index_node''))
   \<and> (start_index < 40 \<longrightarrow>
      add_doc_content H g doc_name doc_content doc_node start_index = Inl (NameError ''doc_dict''))
   \<and> isl (add_doc_name_word H g doc_name word index_dict start_index)
   \<and> isl (add_doc_content H g doc_name doc_content doc_node start_index)"
  by (simp add: add_doc_name_word_def add_doc_content_def sha1_hash_length)

theorem add_functions_raise_NameError_witness:
  "(0::nat) < 40
   \<and> add_doc_name_word (\<lambda>s. 0) module_globals ''Soul_Food'' ''soul'' [] 0
       = Inl (NameError ''index_node'')
   \<and> add_doc_content (\<lambda>s. 0) module_globals ''Soul_Food'' [(0, ''Soul food.'')] [] 0
       = Inl (NameError ''doc_dict'')"
  using add_functions_raise_NameError [of 0 "\<lambda>s. 0" module_globals "''Soul_Food''" "''soul''" "[]"
      "[(0, ''Soul food.'')]" "[]"]
  by simp

subsection \<open>The descent of a lookup\<close>

lemma search_word_loop_snd:
  "snd (search_word_loop platform fs word path (d # ds)) =
     (if isdir platform fs (path @ [CHR 0x5C, d])
      then (path @ [CHR 0x5C, d]) # snd (search_word_loop platform fs word (path @ [CHR 0x5C, d]) ds)
      else [path @ [CHR 0x5C, d]])"
  by (simp add: Let_def split: prod.splits)

lemma search_word_loop_fst:
  "fst (search_word_loop platform fs word path (d # ds)) =
     (if isdir platform fs (path @ [CHR 0x5C, d])
      then fst (search_word_loop platform fs word (path @ [CHR 0x5C, d]) ds)
      else if isfile platform fs (path @ [CHR 0x5C, d] @ ''.txt'')
      then scan_names word False []
             (file_lines (read_text platform fs (path @ [CHR 0x5C, d] @ ''.txt'')))
      else [])"
  by (simp add: Let_def split: prod.splits)

lemma sw_length: "length (snd (search_word_loop platform fs word path ds)) \<le> length ds"
  by (induction ds arbitrary: path) (simp_all add: search_word_loop_snd del: search_word_loop.simps(2))

lemma sw_nonempty: "ds \<noteq> [] \<Longrightarrow> snd (search_word_loop platform fs word path ds) \<noteq> []"
  by (cases ds) (simp_all add: search_word_loop_snd del: search_word_loop.simps(2))

lemma sw_paths:
  "k < length (snd (search_word_loop platform fs word path ds)) \<Longrightarrow>
   snd (search_word_loop platform fs word path ds) ! k = probe_path path (take (Suc k) ds)"
proof (induction ds arbitrary: path k)
  case Nil
  then show ?case by simp
next
  case (Cons d ds)
  show ?case
  proof (cases k)
    case 0
    then show ?thesis
      by (simp add: search_word_loop_snd probe_path_def del: search_word_loop.simps(2))
  next
    case (Suc j)
    with Cons.prems have dir: "isdir platform fs (path @ [CHR 0x5C, d])"
      and j: "j < length (snd (search_word_loop platform fs word (path @ [CHR 0x5C, d]) ds))"
      by (auto simp add: search_word_loop_snd simp del: search_word_loop.simps(2) split: if_splits)
    from Cons.IH [OF j] dir Suc show ?thesis
      by (simp add: search_word_loop_snd probe_path_def del: search_word_loop.simps(2))
  qed
qed

lemma sw_dirs:
  "Suc k < length (snd (search_word_loop platform fs word path ds)) \<Longrightarrow>
   isdir platform fs (snd (search_word_loop platform fs word path ds) ! k)"
proof (induction ds arbitrary: path k)
  case Nil
  then show ?case by simp
next
  case (Cons d ds)
  from Cons.prems have dir: "isdir platform fs (path @ [CHR 0x5C, d])"
    by (auto simp add: search_word_loop_snd simp del: search_word_loop.simps(2) split: if_splits)
  show ?case
  proof (cases k)
    case 0
    with dir show ?thesis
      by (simp add: search_word_loop_snd del: search_word_loop.simps(2))
  next
    case (Suc j)
    with Cons.prems dir
    have j: "Suc j < length (snd (search_word_loop platform fs word (path @ [CHR 0x5C, d]) ds))"
      by (simp add: search_word_loop_snd del: search_word_loop.simps(2))
    from Cons.IH [OF j] dir Suc show ?thesis
      by (simp add: search_word_loop_snd del: search_word_loop.simps(2))
  qed
qed

lemma sw_stop:
  "length (snd (search_word_loop platform fs word path ds)) < length ds \<Longrightarrow>
   \<not> isdir platform fs (last (snd (search_word_loop platform fs word path ds)))"
proof (induction ds arbitrary: path)
  case Nil
  then show ?case by simp
next
  case (Cons d ds)
  show ?case
  proof (cases "isdir platform fs (path @ [CHR 0x5C, d])")
    case True
    with Cons.prems
    have l: "length (snd (search_word_loop platform fs word (path @ [CHR 0x5C, d]) ds)) < length ds"
      by (simp add: search_word_loop_snd del: search_word_loop.simps(2))
    then have "ds \<noteq> []" by auto
    then have ne: "snd (search_word_loop platform fs word (path @ [CHR 0x5C, d]) ds) \<noteq> []"
      by (rule sw_nonempty)
    from Cons.IH [OF l] True ne show ?thesis
      by (simp add: search_word_loop_snd del: search_word_loop.simps(2))
  next
    case False
    then show ?thesis
      by (simp add: search_word_loop_snd del: search_word_loop.simps(2))
  qed
qed

lemma sw_result:
  "ds \<noteq> [] \<Longrightarrow>
   fst (search_word_loop platform fs word path ds) =
     (let p = last (snd (search_word_loop platform fs word path ds)) in
      if isdir platform fs p then []
      else if isfile platform fs (p @ ''.txt'')
      then scan_names word False [] (file_lines (read_text platform fs (p @ ''.txt'')))
      else [])"
proof (induction ds arbitrary: path)
  case Nil
  then show ?case by simp
next
  case (Cons d ds)
  show ?case
  proof (cases "isdir platform fs (path @ [CHR 0x5C, d])")
    case True
    show ?thesis
    proof (cases "ds = []")
      case True
      with \<open>isdir platform fs (path @ [CHR 0x5C, d])\<close> show ?thesis
        by (simp add: Let_def)
    next
      case False
      from Cons.IH [OF False] True sw_nonempty [OF False] show ?thesis
        by (simp add: search_word_loop_snd search_word_loop_fst Let_def
            del: search_word_loop.simps(2))
    qed
  next
    case False
    then show ?thesis
      by (simp add: search_word_loop_snd search_word_loop_fst Let_def
          del: search_word_loop.simps(2))
  qed
qed

lemma get_doc_content_loop_snd:
  "snd (get_doc_content_loop platform fs doc_name path (d # ds)) =
     (if isdir platform fs (path @ [CHR 0x5C, d])
      then (path @ [CHR 0x5C, d]) # snd (get_doc_content_loop platform fs doc_name (path @ [CHR 0x5C, d]) ds)
      else [path @ [CHR 0x5C, d]])"
  by (simp add: Let_def split: prod.splits)

lemma get_doc_content_loop_fst:
  "fst (get_doc_content_loop platform fs doc_name path (d # ds)) =
     (if isdir platform fs (path @ [CHR 0x5C, d])
      then fst (get_doc_content_loop platform fs doc_name (path @ [CHR 0x5C, d]) ds)
      else if isfile platform fs (path @ [CHR 0x5C, d] @ ''.txt'')
      then scan_sentences doc_name False []
             (file_lines (read_text platform fs (path @ [CHR 0x5C, d] @ ''.txt'')))
      else Inr [])"
  by (simp add: Let_def split: prod.splits)

lemma gdc_length: "length (snd (get_doc_content_loop platform fs doc_name path ds)) \<le> length ds"
  by (induction ds arbitrary: path) (simp_all add: get_doc_content_loop_snd del: get_doc_content_loop.simps(2))

lemma gdc_nonempty: "ds \<noteq> [] \<Longrightarrow> snd (get_doc_content_loop platform fs doc_name path ds) \<noteq> []"
  by (cases ds) (simp_all add: get_doc_content_loop_snd del: get_doc_content_loop.simps(2))

lemma gdc_paths:
  "k < length (snd (get_doc_content_loop platform fs doc_name path ds)) \<Longrightarrow>
   snd (get_doc_content_loop platform fs doc_name path ds) ! k = probe_path path (take (Suc k) ds)"
proof (induction ds arbitrary: path k)
  case Nil
  then show ?case by simp
next
  case (Cons d ds)
  show ?case
  proof (cases k)
    case 0
    then show ?thesis
      by (simp add: get_doc_content_loop_snd probe_path_def del: get_doc_content_loop.simps(2))
  next
    case (Suc j)
    with Cons.prems have dir: "isdir platform fs (path @ [CHR 0x5C, d])"
      and j: "j < length (snd (get_doc_content_loop platform fs doc_name (path @ [CHR 0x5C, d]) ds))"
      by (auto simp add: get_doc_content_loop_snd simp del: get_doc_content_loop.simps(2) split: if_splits)
    from Cons.IH [OF j] dir Suc show ?thesis
      by (simp add: get_doc_content_loop_snd probe_path_def del: get_doc_content_loop.simps(2))
  qed
qed

lemma gdc_dirs:
  "Suc k < length (snd (get_doc_content_loop platform fs doc_name path ds)) \<Longrightarrow>
   isdir platform fs (snd (get_doc_content_loop platform fs doc_name path ds) ! k)"
proof (induction ds arbitrary: path k)
  case Nil
  then show ?case by simp
next
  case (Cons d ds)
  from Cons.prems have dir: "isdir platform fs (path @ [CHR 0x5C, d])"
    by (auto simp add: get_doc_content_loop_snd simp del: get_doc_content_loop.simps(2) split: if_splits)
  show ?case
  proof (cases k)
    case 0
    with dir show ?thesis
      by (simp add: get_doc_content_loop_snd del: get_doc_content_loop.simps(2))
  next
    case (Suc j)
    with Cons.prems dir
    have j: "Suc j < length (snd (get_doc_content_loop platform fs doc_name (path @ [CHR 0x5C, d]) ds))"
      by (simp add: get_doc_content_loop_snd del: get_doc_content_loop.simps(2))
    from Cons.IH [OF j] dir Suc show ?thesis
      by (simp add: get_doc_content_loop_snd del: get_doc_content_loop.simps(2))
  qed
qed

lemma gdc_stop:
  "length (snd (get_doc_content_loop platform fs doc_name path ds)) < length ds \<Longrightarrow>
   \<not> isdir platform fs (last (snd (get_doc_content_loop platform fs doc_name path ds)))"
proof (induction ds arbitrary: path)
  case Nil
  then show ?case by simp
next
  case (Cons d ds)
  show ?case
  proof (cases "isdir platform fs (path @ [CHR 0x5C, d])")
    case True
    with Cons.prems
    have l: "length (snd (get_doc_content_loop platform fs doc_name (path @ [CHR 0x5C, d]) ds)) < length ds"
      by (simp add: get_doc_content_loop_snd del: get_doc_content_loop.simps(2))
    then have "ds \<noteq> []" by auto
    then have ne: "snd (get_doc_content_loop platform fs doc_name (path @ [CHR 0x5C, d]) ds) \<noteq> []"
      by (rule gdc_nonempty)
    from Cons.IH [OF l] True ne show ?thesis
      by (simp add: get_doc_content_loop_snd del: get_doc_content_loop.simps(2))
  next
    case False
    then show ?thesis
      by (simp add: get_doc_content_loop_snd del: get_doc_content_loop.simps(2))
  qed
qed

lemma gdc_result:
  "ds \<noteq> [] \<Longrightarrow>
   fst (get_doc_content_loop platform fs doc_name path ds) =
     (let p = last (snd (get_doc_content_loop platform fs doc_name path ds)) in
      if isdir platform fs p then Inr []
      else if isfile platform fs (p @ ''.txt'')
      then scan_sentences doc_name False [] (file_lines (read_text platform fs (p @ ''.txt'')))
      else Inr [])"
proof (induction ds arbitrary: path)
  case Nil
  then show ?case by simp
next
  case (Cons d ds)
  show ?case
  proof (cases "isdir platform fs (path @ [CHR 0x5C, d])")
    case True
    show ?thesis
    proof (cases "ds = []")
      case True
      with \<open>isdir platform fs (path @ [CHR 0x5C, d])\<close> show ?thesis
        by (simp add: Let_def)
    next
      case False
      from Cons.IH [OF False] True gdc_nonempty [OF False] show ?thesis
        by (simp add: get_doc_content_loop_snd get_doc_content_loop_fst Let_def
            del: get_doc_content_loop.simps(2))
    qed
  next
    case False
    then show ?thesis
      by (simp add: get_doc_content_loop_snd get_doc_content_loop_fst Let_def
          del: get_doc_content_loop.simps(2))
  qed
qed

lemma zero_digest: "sha1_hash (\<lambda>s. 0) w = replicate 40 (CHR ''0'')"
  by (simp add: sha1_hash_def hex_digit_def map_replicate_const)

lemma leaf_layout_search: "search_word_loop ''win32'' leaf_layout ''soul'' INDEX_FOLDER (replicate 40 (CHR ''0''))
   = ([''Soul''], [''docname-index'' @ [CHR 0x5C] @ ''0'',  ''docname-index'' @ [CHR 0x5C] @ ''0'' @ [CHR 0x5C] @ ''0''])"
  by (simp add: numeral_eq_Suc INDEX_FOLDER_def leaf_layout_def isdir_def isfile_def read_text_def
      path_components_def split_runs_def is_sep_def file_lines_def split_ws_def strip_def isspace_def
      lower_def lower_char_def Let_def)

lemma leaf_layout_content: "get_doc_content_loop ''win32'' leaf_layout ''Soul'' DOC_FOLDER (replicate 40 (CHR ''0''))
   = (Inr [], [''indexed-docs'' @ [CHR 0x5C] @ ''0''])"
  by (simp add: numeral_eq_Suc DOC_FOLDER_def leaf_layout_def isdir_def isfile_def read_text_def
      path_components_def split_runs_def is_sep_def Let_def)

text \<open>
  C7. A lookup, by \<^verbatim>\<open>search_word\<close> or by \<^verbatim>\<open>get_doc_content\<close>, probes at
  most forty paths and at least one; the \<open>k\<close>-th probed path is the root followed by
  the first \<open>k\<close> digits of the digest; every probed path but the last is a directory;
  the descent stops before the fortieth digit only at a path that is no directory; and
  the result is the scan of the leaf file at the last probed path when that path is no
  directory and the file exists, and empty otherwise. No other path is looked at.
\<close>

theorem lookup_descent_bound:
  fixes platform :: string and fs :: filesystem and H :: "string \<Rightarrow> nat" and word doc_name :: string
  defines "probed \<equiv> snd (search_word_loop platform fs word INDEX_FOLDER (sha1_hash H (lower word)))"
      and "probed' \<equiv> snd (get_doc_content_loop platform fs doc_name DOC_FOLDER (sha1_hash H doc_name))"
  shows "length probed \<le> 40 \<and> probed \<noteq> []
    \<and> (\<forall>k < length probed. probed ! k = probe_path INDEX_FOLDER (take (Suc k) (sha1_hash H (lower word))))
    \<and> (\<forall>k. Suc k < length probed \<longrightarrow> isdir platform fs (probed ! k))
    \<and> (length probed < 40 \<longrightarrow> \<not> isdir platform fs (last probed))
    \<and> search_word platform fs H word =
         (if isdir platform fs (last probed) then []
          else if isfile platform fs (last probed @ ''.txt'')
          then scan_names word False [] (file_lines (read_text platform fs (last probed @ ''.txt'')))
          else [])
    \<and> length probed' \<le> 40 \<and> probed' \<noteq> []
    \<and> (\<forall>k < length probed'. probed' ! k = probe_path DOC_FOLDER (take (Suc k) (sha1_hash H doc_name)))
    \<and> (\<forall>k. Suc k < length probed' \<longrightarrow> isdir platform fs (probed' ! k))
    \<and> (length probed' < 40 \<longrightarrow> \<not> isdir platform fs (last probed'))
    \<and> get_doc_content platform fs H doc_name =
         (if isdir platform fs (last probed') then Inr []
          else if isfile platform fs (last probed' @ ''.txt'')
          then scan_sentences doc_name False [] (file_lines (read_text platform fs (last probed' @ ''.txt'')))
          else Inr [])"
proof -
  have ne: "sha1_hash H (lower word) \<noteq> []" "sha1_hash H doc_name \<noteq> []"
    using sha1_hash_length [of H "lower word"] sha1_hash_length [of H doc_name] by auto
  have a: "length probed \<le> 40" "length probed' \<le> 40"
    unfolding probed_def probed'_def
    using sw_length [of platform fs word INDEX_FOLDER "sha1_hash H (lower word)"]
      gdc_length [of platform fs doc_name DOC_FOLDER "sha1_hash H doc_name"]
    by (simp_all add: sha1_hash_length)
  have b: "probed \<noteq> []" "probed' \<noteq> []"
    unfolding probed_def probed'_def using ne by (simp_all add: sw_nonempty gdc_nonempty)
  have c: "\<forall>k < length probed. probed ! k = probe_path INDEX_FOLDER (take (Suc k) (sha1_hash H (lower word)))"
    "\<forall>k < length probed'. probed' ! k = probe_path DOC_FOLDER (take (Suc k) (sha1_hash H doc_name))"
    unfolding probed_def probed'_def by (simp_all add: sw_paths gdc_paths)
  have d: "\<forall>k. Suc k < length probed \<longrightarrow> isdir platform fs (probed ! k)"
    "\<forall>k. Suc k < length probed' \<longrightarrow> isdir platform fs (probed' ! k)"
    unfolding probed_def probed'_def by (simp_all add: sw_dirs gdc_dirs)
  have e: "length probed < 40 \<longrightarrow> \<not> isdir platform fs (last probed)"
    "length probed' < 40 \<longrightarrow> \<not> isdir platform fs (last probed')"
    unfolding probed_def probed'_def
    using sw_stop [of platform fs word INDEX_FOLDER "sha1_hash H (lower word)"]
      gdc_stop [of platform fs doc_name DOC_FOLDER "sha1_hash H doc_name"]
    by (simp_all add: sha1_hash_length)
  have f: "search_word platform fs H word =
         (if isdir platform fs (last probed) then []
          else if isfile platform fs (last probed @ ''.txt'')
          then scan_names word False [] (file_lines (read_text platform fs (last probed @ ''.txt'')))
          else [])"
    unfolding probed_def search_word_def using sw_result [OF ne(1)] by (simp add: Let_def)
  have g: "get_doc_content platform fs H doc_name =
         (if isdir platform fs (last probed') then Inr []
          else if isfile platform fs (last probed' @ ''.txt'')
          then scan_sentences doc_name False [] (file_lines (read_text platform fs (last probed' @ ''.txt'')))
          else Inr [])"
    unfolding probed'_def get_doc_content_def using gdc_result [OF ne(2)] by (simp add: Let_def)
  from a b c d e f g show ?thesis by blast
qed



theorem lookup_descent_bound_witness:
  "length (snd (search_word_loop ''win32'' leaf_layout ''soul'' INDEX_FOLDER
      (sha1_hash (\<lambda>s. 0) (lower ''soul'')))) \<le> 40
   \<and> snd (search_word_loop ''win32'' leaf_layout ''soul'' INDEX_FOLDER
        (sha1_hash (\<lambda>s. 0) (lower ''soul'')))
       = [probe_path INDEX_FOLDER ''0'', probe_path INDEX_FOLDER ''00'']
   \<and> isdir ''win32'' leaf_layout (probe_path INDEX_FOLDER ''0'')
   \<and> \<not> isdir ''win32'' leaf_layout (probe_path INDEX_FOLDER ''00'')
   \<and> isfile ''win32'' leaf_layout (probe_path INDEX_FOLDER ''00'' @ ''.txt'')
   \<and> search_word ''win32'' leaf_layout (\<lambda>s. 0) ''soul'' = [''Soul'']
   \<and> snd (get_doc_content_loop ''win32'' leaf_layout ''Soul'' DOC_FOLDER
        (sha1_hash (\<lambda>s. 0) ''Soul'')) = [probe_path DOC_FOLDER ''0'']
   \<and> \<not> isdir ''win32'' leaf_layout (probe_path DOC_FOLDER ''0'')
   \<and> \<not> isfile ''win32'' leaf_layout (probe_path DOC_FOLDER ''0'' @ ''.txt'')
   \<and> get_doc_content ''win32'' leaf_layout (\<lambda>s. 0) ''Soul'' = Inr []"
proof -
  note t = lookup_descent_bound [where platform = "''win32''" and fs = leaf_layout
      and H = "\<lambda>s. 0" and word = "''soul''" and doc_name = "''Soul''"]
  have l: "lower ''soul'' = ''soul''"
    by (simp add: lower_def lower_char_def)
  have 1: "length (snd (search_word_loop ''win32'' leaf_layout ''soul'' INDEX_FOLDER
      (sha1_hash (\<lambda>s. 0) (lower ''soul'')))) \<le> 40"
    using t by blast
  have 2: "snd (search_word_loop ''win32'' leaf_layout ''soul'' INDEX_FOLDER
        (sha1_hash (\<lambda>s. 0) (lower ''soul'')))
       = [probe_path INDEX_FOLDER ''0'', probe_path INDEX_FOLDER ''00'']"
    by (simp only: l zero_digest leaf_layout_search) (simp add: probe_path_def INDEX_FOLDER_def)
  have 3: "isdir ''win32'' leaf_layout (probe_path INDEX_FOLDER ''0'')"
    "\<not> isdir ''win32'' leaf_layout (probe_path INDEX_FOLDER ''00'')"
    "isfile ''win32'' leaf_layout (probe_path INDEX_FOLDER ''00'' @ ''.txt'')"
    "\<not> isdir ''win32'' leaf_layout (probe_path DOC_FOLDER ''0'')"
    "\<not> isfile ''win32'' leaf_layout (probe_path DOC_FOLDER ''0'' @ ''.txt'')"
    by (simp_all add: probe_path_def INDEX_FOLDER_def DOC_FOLDER_def leaf_layout_def isdir_def
        isfile_def path_components_def split_runs_def is_sep_def)
  have 4: "search_word ''win32'' leaf_layout (\<lambda>s. 0) ''soul'' = [''Soul'']"
    by (simp only: search_word_def l zero_digest leaf_layout_search) simp
  have 5: "snd (get_doc_content_loop ''win32'' leaf_layout ''Soul'' DOC_FOLDER
        (sha1_hash (\<lambda>s. 0) ''Soul'')) = [probe_path DOC_FOLDER ''0'']"
    by (simp only: zero_digest leaf_layout_content) (simp add: probe_path_def DOC_FOLDER_def)
  have 6: "get_doc_content ''win32'' leaf_layout (\<lambda>s. 0) ''Soul'' = Inr []"
    by (simp only: get_doc_content_def zero_digest leaf_layout_content) simp
  from 1 2 3 4 5 6 show ?thesis by blast
qed

subsection \<open>Absorption\<close>

lemma absorb_loop_set:
  "distinct xs \<Longrightarrow> set xs \<inter> set new = {} \<Longrightarrow>
   set (absorb_loop xs new) =
     set new \<union> {w \<in> set xs. \<not> (\<exists>r \<in> set xs \<union> set new. r \<noteq> w \<and> sublist w r)}"
proof (induction xs arbitrary: new)
  case Nil
  then show ?case by simp
next
  case (Cons w xs)
  from Cons.prems have d: "distinct xs" "w \<notin> set xs" "w \<notin> set new" "set xs \<inter> set new = {}"
    by auto
  show ?case
  proof (cases "\<exists>r \<in> set (xs @ new). sublist w r")
    case True
    then obtain r where r: "r \<in> set xs \<union> set new" "sublist w r" by auto
    with d have rw: "r \<noteq> w" by auto
    have via: "\<exists>r' \<in> set xs \<union> set new. r' \<noteq> v \<and> sublist v r'"
      if v: "v \<in> set xs" "sublist v w" for v
    proof -
      have "sublist v r" using v(2) r(2) by (rule sublist_order.order.trans)
      moreover have "r \<noteq> v"
      proof
        assume "r = v"
        with r(2) v(2) have "v = w" by (auto intro: sublist_order.order.antisym)
        with v(1) d(2) show False by simp
      qed
      ultimately show ?thesis using r(1) by blast
    qed
    have "absorb_loop (w # xs) new = absorb_loop xs new" using True by simp
    also have "set \<dots> = set new \<union>
        {v \<in> set xs. \<not> (\<exists>r \<in> set xs \<union> set new. r \<noteq> v \<and> sublist v r)}"
      using Cons.IH [OF d(1) d(4)] .
    also have "\<dots> = set new \<union>
        {v \<in> set (w # xs). \<not> (\<exists>r \<in> set (w # xs) \<union> set new. r \<noteq> v \<and> sublist v r)}"
      using r rw via by auto
    finally show ?thesis .
  next
    case False
    have disj: "set xs \<inter> set (new @ [w]) = {}" using d by auto
    have "absorb_loop (w # xs) new = absorb_loop xs (new @ [w])" using False by simp
    also have "set \<dots> = set (new @ [w]) \<union>
        {v \<in> set xs. \<not> (\<exists>r \<in> set xs \<union> set (new @ [w]). r \<noteq> v \<and> sublist v r)}"
      using Cons.IH [OF d(1) disj] .
    also have "\<dots> = set new \<union>
        {v \<in> set (w # xs). \<not> (\<exists>r \<in> set (w # xs) \<union> set new. r \<noteq> v \<and> sublist v r)}"
      using False by auto
    finally show ?thesis .
  qed
qed

lemma split_runs_acc_run:
  "\<forall>c \<in> set t. \<not> sep c \<Longrightarrow> split_runs_acc sep cur (t @ rest) = split_runs_acc sep (cur @ t) rest"
  by (induction t arbitrary: cur) simp_all

lemma split_ws_join:
  "wf_tokens wl \<Longrightarrow> split_ws (join '' '' wl) = wl"
proof (induction "'' ''" wl rule: join.induct)
  case 1
  then show ?case by (simp add: split_ws_def split_runs_def)
next
  case (2 x)
  then have "split_runs_acc isspace [] (x @ []) = split_runs_acc isspace ([] @ x) []"
    by (intro split_runs_acc_run) (simp add: wf_tokens_def)
  with 2 show ?case by (simp add: split_ws_def split_runs_def wf_tokens_def)
next
  case (3 x y ys)
  from 3 have x: "x \<noteq> []" "\<forall>c \<in> set x. \<not> isspace c" and wf: "wf_tokens (y # ys)"
    by (simp_all add: wf_tokens_def)
  have "split_runs_acc isspace [] (x @ ('' '' @ join '' '' (y # ys)))
      = split_runs_acc isspace ([] @ x) ('' '' @ join '' '' (y # ys))"
    using x(2) by (rule split_runs_acc_run)
  also have "\<dots> = x # split_runs_acc isspace [] (join '' '' (y # ys))"
    using x(1) by (simp add: isspace_def)
  finally show ?case using 3 wf by (simp add: split_ws_def split_runs_def)
qed

lemma join_append:
  "xs \<noteq> [] \<Longrightarrow> ys \<noteq> [] \<Longrightarrow> join sep (xs @ ys) = join sep xs @ sep @ join sep ys"
proof (induction sep xs rule: join.induct)
  case (2 sep x)
  then show ?case by (cases ys) simp_all
qed simp_all

lemma sublist_join: "sublist wl wl' \<Longrightarrow> sublist (join sep wl) (join sep wl')"
proof -
  assume "sublist wl wl'"
  then obtain ps ss where e: "wl' = ps @ wl @ ss" by (auto simp: sublist_def)
  show ?thesis
  proof (cases "wl = []")
    case True
    then show ?thesis by simp
  next
    case False
    have 1: "sublist (join sep wl) (join sep (wl @ ss))"
      using False by (cases "ss = []") (simp_all add: join_append)
    have 2: "sublist (join sep (wl @ ss)) (join sep (ps @ wl @ ss))"
    proof (cases "ps = []")
      case True
      then show ?thesis by simp
    next
      case pne: False
      have "join sep (ps @ wl @ ss) = (join sep ps @ sep) @ join sep (wl @ ss)"
        using pne False by (simp add: join_append)
      then show ?thesis by (metis sublist_append_leftI)
    qed
    from 1 2 show ?thesis unfolding e by (rule sublist_order.order.trans)
  qed
qed


lemma name_dict_get_iff: "n \<in> set (name_dict_get doc_names wl) \<longleftrightarrow> (n, wl) \<in> set doc_names"
  by (force simp: name_dict_get_def)

lemma absorb_doc_names_iff:
  assumes wf: "\<forall>(n, wl) \<in> set doc_names. wf_tokens wl"
  shows "n \<in> set (absorb_doc_names doc_names) \<longleftrightarrow>
     (\<exists>wl. (n, wl) \<in> set doc_names \<and>
        (\<forall>(n', wl') \<in> set doc_names. wl' \<noteq> wl \<longrightarrow> \<not> sublist (join '' '' wl) (join '' '' wl')))"
proof -
  define J where "J = remdups (map (join '' '') (remdups (map snd doc_names)))"
  have J: "set J = join '' '' ` snd ` set doc_names" by (auto simp: J_def)
  have new: "set (absorb_loop J []) = {w \<in> set J. \<not> (\<exists>r \<in> set J. r \<noteq> w \<and> sublist w r)}"
    using absorb_loop_set [of J "[]"] by (simp add: J_def)
  have rt: "split_ws (join '' '' wl) = wl" if "(m, wl) \<in> set doc_names" for m wl
    using wf that by (auto intro: split_ws_join)
  have res: "n \<in> set (absorb_doc_names doc_names) \<longleftrightarrow>
      (\<exists>w \<in> set (absorb_loop J []). (n, split_ws w) \<in> set doc_names)"
    by (simp add: absorb_doc_names_def Let_def J_def name_dict_get_iff)
  show ?thesis
  proof
    assume "n \<in> set (absorb_doc_names doc_names)"
    with res new obtain w where w: "w \<in> set J" "\<forall>r \<in> set J. r \<noteq> w \<longrightarrow> \<not> sublist w r"
      and n: "(n, split_ws w) \<in> set doc_names" by auto
    from w(1) J obtain m wl where wl: "(m, wl) \<in> set doc_names" "w = join '' '' wl" by auto
    have sw: "split_ws w = wl" using rt [OF wl(1)] wl(2) by simp
    have "\<not> sublist (join '' '' wl) (join '' '' wl')"
      if p: "(n', wl') \<in> set doc_names" "wl' \<noteq> wl" for n' wl'
    proof -
      have "join '' '' wl' \<in> set J" using p(1) J by force
      moreover have "join '' '' wl' \<noteq> w"
        using rt [OF p(1)] sw p(2) by auto
      ultimately show ?thesis using w(2) wl(2) by auto
    qed
    with n sw show "\<exists>wl. (n, wl) \<in> set doc_names \<and>
        (\<forall>(n', wl') \<in> set doc_names. wl' \<noteq> wl \<longrightarrow> \<not> sublist (join '' '' wl) (join '' '' wl'))"
      by blast
  next
    assume "\<exists>wl. (n, wl) \<in> set doc_names \<and>
        (\<forall>(n', wl') \<in> set doc_names. wl' \<noteq> wl \<longrightarrow> \<not> sublist (join '' '' wl) (join '' '' wl'))"
    then obtain wl where wl: "(n, wl) \<in> set doc_names"
      and mx: "\<And>n' wl'. (n', wl') \<in> set doc_names \<Longrightarrow> wl' \<noteq> wl \<Longrightarrow>
            \<not> sublist (join '' '' wl) (join '' '' wl')" by blast
    have inJ: "join '' '' wl \<in> set J" using wl J by force
    have "\<not> sublist (join '' '' wl) r" if r: "r \<in> set J" "r \<noteq> join '' '' wl" for r
    proof -
      from r(1) J obtain n' wl' where p: "(n', wl') \<in> set doc_names" "r = join '' '' wl'" by auto
      with r(2) have "wl' \<noteq> wl" by auto
      with mx p show ?thesis by simp
    qed
    with inJ new have "join '' '' wl \<in> set (absorb_loop J [])" by auto
    moreover have "(n, split_ws (join '' '' wl)) \<in> set doc_names" using rt [OF wl] wl by simp
    ultimately show "n \<in> set (absorb_doc_names doc_names)" using res by blast
  qed
qed

lemma absorb_loop_any_order:
  "distinct order1 \<Longrightarrow> distinct order2 \<Longrightarrow> set order1 = set order2 \<Longrightarrow>
   set (absorb_loop order1 []) = set (absorb_loop order2 [])"
  by (simp add: absorb_loop_set)

text \<open>
  C6, as the specification states it, fails: the sentence \<^verbatim>\<open>Start Art\<close> accepts
  the names \<^verbatim>\<open>Start\<close> and \<^verbatim>\<open>Art\<close>, neither word list is a run of words of
  the other, and \<^verbatim>\<open>absorb_doc_names\<close> discards \<^verbatim>\<open>Art\<close> all the same, since
  line 104 tests the containment of strings of characters.
\<close>

theorem absorb_by_characters_counterexample:
  "set (scan_positions [] art_names [''Start'', ''Art''] [] False)
     = {(''Start'', [''start'']), (''Art'', [''art''])}
   \<and> \<not> sublist [''art''] [''start''] \<and> \<not> sublist [''start''] [''art'']
   \<and> claimed_survivors [(''Start'', [''start'']), (''Art'', [''art''])] = [''Start'', ''Art'']
   \<and> absorb_doc_names [(''Start'', [''start'']), (''Art'', [''art''])] = [''Start'']"
proof -
  have 1: "set (scan_positions [] art_names [''Start'', ''Art''] [] False)
     = {(''Start'', [''start'']), (''Art'', [''art''])}"
    by (simp add: first_islower_def islower_def lower_def lower_char_def art_names_def
        get_valid_names_def Let_def)
  have 2: "\<not> sublist [''art''] [''start'']" "\<not> sublist [''start''] [''art'']"
    by (simp_all add: sublist_Cons_right)
  have 3: "claimed_survivors [(''Start'', [''start'']), (''Art'', [''art''])] = [''Start'', ''Art'']"
    by (simp add: claimed_survivors_def sublist_Cons_right)
  have 4: "absorb_doc_names [(''Start'', [''start'']), (''Art'', [''art''])] = [''Start'']"
    by (simp add: absorb_doc_names_def name_dict_get_def split_ws_def split_runs_def isspace_def
        sublist_Cons_right Let_def)
  from 1 2 3 4 show ?thesis by blast
qed

text \<open>
  C6, amended. Among the accepted names, whose words are words of the sentence, a name
  survives \<^verbatim>\<open>absorb_doc_names\<close> exactly when it has a word list whose space-joined
  string is contained, as a string of characters, in the space-joined string of no
  different accepted word list. A name whose word list is a contiguous run of words of
  another accepted name's different word list is therefore discarded; names with the
  same word list survive together; and of \<^verbatim>\<open>Soul\<close> and \<^verbatim>\<open>Soul_Food\<close> only
  \<^verbatim>\<open>Soul_Food\<close> survives. By \<open>absorb_loop_any_order\<close> the order in which the set
  is popped does not matter.
\<close>

theorem absorb_doc_names_keeps_maximal:
  assumes wf: "\<forall>(n, wl) \<in> set doc_names. wf_tokens wl"
  shows "(n \<in> set (absorb_doc_names doc_names) \<longleftrightarrow>
           (\<exists>wl. (n, wl) \<in> set doc_names \<and>
              (\<forall>(n', wl') \<in> set doc_names.
                  wl' \<noteq> wl \<longrightarrow> \<not> sublist (join '' '' wl) (join '' '' wl'))))
       \<and> ((n, wl) \<in> set doc_names \<and> (\<forall>w. (n, w) \<in> set doc_names \<longrightarrow> w = wl)
            \<and> (n', wl') \<in> set doc_names \<and> wl' \<noteq> wl \<and> sublist wl wl'
           \<longrightarrow> n \<notin> set (absorb_doc_names doc_names))
       \<and> ((n, wl) \<in> set doc_names \<and> (n', wl) \<in> set doc_names
            \<and> (\<forall>w. (n, w) \<in> set doc_names \<longrightarrow> w = wl)
           \<longrightarrow> (n \<in> set (absorb_doc_names doc_names) \<longrightarrow> n' \<in> set (absorb_doc_names doc_names)))
       \<and> absorb_doc_names [(''Soul'', [''soul'']), (''Soul_Food'', [''soul'', ''food''])]
           = [''Soul_Food'']"
proof (intro conjI impI)
  show "n \<in> set (absorb_doc_names doc_names) \<longleftrightarrow>
           (\<exists>wl. (n, wl) \<in> set doc_names \<and>
              (\<forall>(n', wl') \<in> set doc_names.
                  wl' \<noteq> wl \<longrightarrow> \<not> sublist (join '' '' wl) (join '' '' wl')))"
    using wf by (rule absorb_doc_names_iff)
next
  assume a: "(n, wl) \<in> set doc_names \<and> (\<forall>w. (n, w) \<in> set doc_names \<longrightarrow> w = wl)
            \<and> (n', wl') \<in> set doc_names \<and> wl' \<noteq> wl \<and> sublist wl wl'"
  then have "sublist (join '' '' wl) (join '' '' wl')" by (simp add: sublist_join)
  with a show "n \<notin> set (absorb_doc_names doc_names)"
    unfolding absorb_doc_names_iff [OF wf] by blast
next
  assume a: "(n, wl) \<in> set doc_names \<and> (n', wl) \<in> set doc_names
            \<and> (\<forall>w. (n, w) \<in> set doc_names \<longrightarrow> w = wl)"
    and n: "n \<in> set (absorb_doc_names doc_names)"
  from n a show "n' \<in> set (absorb_doc_names doc_names)"
    unfolding absorb_doc_names_iff [OF wf] by blast
next
  show "absorb_doc_names [(''Soul'', [''soul'']), (''Soul_Food'', [''soul'', ''food''])]
           = [''Soul_Food'']"
    by (simp add: absorb_doc_names_def name_dict_get_def split_ws_def split_runs_def isspace_def
        sublist_Cons_right Let_def)
qed


theorem absorb_doc_names_keeps_maximal_witness:
  "''Soul'' \<notin> set (absorb_doc_names accepted_example)
   \<and> ''Soul_Food'' \<in> set (absorb_doc_names accepted_example)
   \<and> ''Soul_Food_(film)'' \<in> set (absorb_doc_names accepted_example)"
proof -
  have wf: "\<forall>(n, wl) \<in> set accepted_example. wf_tokens wl"
    by (simp add: accepted_example_def wf_tokens_def isspace_def)
  have h1: "(''Soul'', [''soul'']) \<in> set accepted_example
      \<and> (\<forall>w. (''Soul'', w) \<in> set accepted_example \<longrightarrow> w = [''soul''])
      \<and> (''Soul_Food'', [''soul'', ''food'']) \<in> set accepted_example
      \<and> [''soul'', ''food''] \<noteq> [''soul''] \<and> sublist [''soul''] [''soul'', ''food'']"
    by (simp add: accepted_example_def)
  have 1: "''Soul'' \<notin> set (absorb_doc_names accepted_example)"
    using absorb_doc_names_keeps_maximal [OF wf, where n = "''Soul''" and wl = "[''soul'']"
        and n' = "''Soul_Food''" and wl' = "[''soul'', ''food'']"] h1
    by blast
  have h2: "\<exists>wl. (''Soul_Food'', wl) \<in> set accepted_example \<and>
      (\<forall>(n', wl') \<in> set accepted_example.
          wl' \<noteq> wl \<longrightarrow> \<not> sublist (join '' '' wl) (join '' '' wl'))"
    by (rule exI [of _ "[''soul'', ''food'']"]) (simp add: accepted_example_def sublist_Cons_right)
  have 2: "''Soul_Food'' \<in> set (absorb_doc_names accepted_example)"
    using absorb_doc_names_keeps_maximal [OF wf, where n = "''Soul_Food''"
        and wl = "[''soul'', ''food'']" and n' = "''Soul_Food_(film)''" and wl' = "[]"] h2
    by blast
  have h3: "(''Soul_Food'', [''soul'', ''food'']) \<in> set accepted_example
      \<and> (''Soul_Food_(film)'', [''soul'', ''food'']) \<in> set accepted_example
      \<and> (\<forall>w. (''Soul_Food'', w) \<in> set accepted_example \<longrightarrow> w = [''soul'', ''food''])"
    by (simp add: accepted_example_def)
  have 3: "''Soul_Food_(film)'' \<in> set (absorb_doc_names accepted_example)"
    using absorb_doc_names_keeps_maximal [OF wf, where n = "''Soul_Food''"
        and wl = "[''soul'', ''food'']" and n' = "''Soul_Food_(film)''" and wl' = "[]"] h3 2
    by blast
  from 1 2 3 show ?thesis by blast
qed

subsection \<open>Entity precedence\<close>

lemma upt_40: "[0..<40] = [0, 1, 2, 3, 4, 5, 6, 7, 8, 9, 10, 11, 12, 13, 14, 15, 16, 17, 18, 19,
    20, 21, 22, 23, 24, 25, 26, 27, 28, 29, 30, 31, 32, 33, 34, 35, 36, 37, 38, 39 :: nat]"
  by (simp add: upt_conv_Cons)

lemma digest_soul: "sha1_hash digests ''soul'' = ''0867322e7c4223c85b4c8d14b69ab8a6fc774dad''"
  by (simp add: sha1_hash_def digests_def hex_digit_def upt_40)

lemma digest_food: "sha1_hash digests ''food'' = ''39ccb32d95edfdbcd882f2b01809724ec640ea16''"
  by (simp add: sha1_hash_def digests_def hex_digit_def upt_40)

lemma scan_positions_set:
  "set (scan_positions doc_names ne_doc_names ws result ne_found) =
     (if ne_found then set result \<union> entity_matches ne_doc_names ws
      else if list_all first_islower ws then set result \<union> common_matches doc_names ws
      else entity_matches ne_doc_names (dropWhile first_islower ws))"
proof (induction ws arbitrary: result ne_found)
  case Nil
  then show ?case by simp
next
  case (Cons word rest)
  show ?case
    by (cases ne_found; cases "first_islower word")
       (auto simp: Cons.IH Let_def matches_at_def split: option.splits)
qed

lemma lower_soul: "lower ''soul'' = ''soul''" "lower ''The'' = ''the''" "lower ''Soul'' = ''soul''"
  by (simp_all add: lower_def lower_char_def)

lemma index_layout_soul:
  "search_word ''win32'' index_layout digests ''soul'' = [''Soul'', ''Soul_Food'']"
  by (simp add: search_word_def lower_soul digest_soul)
     (simp add: INDEX_FOLDER_def index_layout_def isdir_def isfile_def read_text_def
      path_components_def split_runs_def is_sep_def file_lines_def split_ws_def strip_def
      isspace_def lower_soul Let_def)

lemma get_words_soul:
  "get_words ''Soul'' = [''soul'']" "get_words ''Soul_Food'' = [''soul'', ''food'']"
  by (simp_all add: get_words_def lower_def lower_char_def Let_def)

lemma lookup_soul_The:
  "lookup_words ''win32'' index_layout digests {''The''} [''soul'', ''The''] [] []
     = (soul_names, [])"
  by (simp add: first_islower_def islower_def lower_soul index_layout_soul get_words_soul
      soul_names_def)

lemma scan_soul_The: "scan_positions soul_names [] [''soul'', ''The''] [] False = []"
  by (simp add: first_islower_def islower_def lower_soul soul_names_def get_valid_names_def
      Let_def)

lemma claimed_soul_The:
  "claimed_matches {''The''} soul_names [] [''soul'', ''The''] = {(''Soul'', [''soul''])}"
  by (simp add: claimed_matches_def claimed_entity_token_def first_islower_def islower_def
      matches_at_def lower_soul soul_names_def get_valid_names_def)

text \<open>
  C5, as the specification states it, fails: in the sentence \<^verbatim>\<open>soul The\<close> with the
  stop word \<^verbatim>\<open>The\<close> no capitalised word is left that is not a stop word, so the
  match of \<^verbatim>\<open>soul\<close> with the document \<^verbatim>\<open>Soul\<close> would be retained; the
  second loop does not consult the stop words, enters entity mode at \<^verbatim>\<open>The\<close> and
  returns nothing.
\<close>

theorem entity_mode_ignores_stop_words_counterexample:
  "split_runs (\<lambda>c. \<not> isword c) ''soul The'' = [''soul'', ''The'']
   \<and> lookup_words ''win32'' index_layout digests {''The''} [''soul'', ''The''] [] []
       = (soul_names, [])
   \<and> claimed_matches {''The''} soul_names [] [''soul'', ''The''] = {(''Soul'', [''soul''])}
   \<and> set (scan_positions soul_names [] [''soul'', ''The''] [] False)
       \<noteq> claimed_matches {''The''} soul_names [] [''soul'', ''The'']
   \<and> search_sentence ''win32'' index_layout digests ''soul The'' {''The''} = []"
proof -
  have tok: "split_runs (\<lambda>c. \<not> isword c) ''soul The'' = [''soul'', ''The'']"
    by (simp add: split_runs_def isword_def islower_def isupper_def isdigit_def)
  have s: "search_sentence ''win32'' index_layout digests ''soul The'' {''The''} = []"
    unfolding search_sentence_def
    by (simp only: tok Let_def lookup_soul_The prod.case scan_soul_The)
       (simp add: absorb_doc_names_def)
  have d: "set (scan_positions soul_names [] [''soul'', ''The''] [] False)
      \<noteq> claimed_matches {''The''} soul_names [] [''soul'', ''The'']"
    by (simp only: claimed_soul_The scan_soul_The) simp
  from tok s d lookup_soul_The claimed_soul_The show ?thesis
    by blast
qed

text \<open>
  C5, amended. The scan enters entity mode at the first position whose word does not
  start with a lower-case letter, stop word or not. What was collected before is
  discarded, and the result holds exactly the matches found, in the dictionary of such
  words, at the positions from there on whose word does not start with a lower-case
  letter. When every word starts with a lower-case letter the result holds the matches
  of all positions in the dictionary of lower-case words.
\<close>

theorem entity_mode_at_first_not_lowercase:
  "set (scan_positions doc_names ne_doc_names words [] False) =
     (if list_all first_islower words then common_matches doc_names words
      else entity_matches ne_doc_names (dropWhile first_islower words))"
  by (simp add: scan_positions_set)

theorem entity_mode_at_first_not_lowercase_witness:
  "set (scan_positions soul_names soul_names [''soul'', ''Soul'', ''food''] [] False)
     = {(''Soul'', [''soul'']), (''Soul_Food'', [''soul'', ''food''])}
   \<and> set (scan_positions soul_names [] [''love'', ''soul''] [] False) = {(''Soul'', [''soul''])}"
  using entity_mode_at_first_not_lowercase [of soul_names soul_names "[''soul'', ''Soul'', ''food'']"]
    entity_mode_at_first_not_lowercase [of soul_names "[]" "[''love'', ''soul'']"]
  by (simp add: first_islower_def islower_def matches_at_def lower_def lower_char_def
      soul_names_def get_valid_names_def)

subsection \<open>The separator of the builder and of the reader\<close>

lemma split_runs_acc_sep:
  "sep s \<Longrightarrow> split_runs_acc sep cur (a @ s # b) = split_runs_acc sep cur a @ split_runs_acc sep [] b"
  by (induction a arbitrary: cur) simp_all

lemma split_runs_acc_head:
  "cur \<noteq> [] \<Longrightarrow> \<exists>ks. split_runs_acc sep cur rest = (cur @ takeWhile (\<lambda>c. \<not> sep c) rest) # ks"
proof (induction rest arbitrary: cur)
  case Nil
  then show ?case by simp
next
  case (Cons a rest)
  show ?case
  proof (cases "sep a")
    case True
    with Cons.prems show ?thesis by simp
  next
    case False
    from Cons.IH [of "cur @ [a]"] obtain ks
      where "split_runs_acc sep (cur @ [a]) rest
             = ((cur @ [a]) @ takeWhile (\<lambda>c. \<not> sep c) rest) # ks"
      by auto
    with False show ?thesis by simp
  qed
qed

lemma split_runs_acc_nonempty: "cur \<noteq> [] \<Longrightarrow> split_runs_acc sep cur rest \<noteq> []"
  using split_runs_acc_head [of cur sep rest] by auto

lemma split_runs_acc_hd:
  "cur \<noteq> [] \<Longrightarrow> hd (split_runs_acc sep cur rest) = cur @ takeWhile (\<lambda>c. \<not> sep c) rest"
  using split_runs_acc_head [of cur sep rest] by auto

lemma posix_components_append:
  "platform \<noteq> ''win32'' \<Longrightarrow>
   path_components platform (a @ SEPARATOR platform @ b)
     = path_components platform a @ path_components platform b"
  by (simp add: path_components_def split_runs_def SEPARATOR_def split_runs_acc_sep is_sep_def)

lemma components_txt_nonempty: "path_components platform ([d] @ ''.txt'') \<noteq> []"
proof (cases "is_sep platform d")
  case True
  then show ?thesis
    by (simp add: path_components_def split_runs_def is_sep_def split_runs_acc_nonempty)
next
  case False
  then show ?thesis
    by (simp add: path_components_def split_runs_def split_runs_acc_nonempty)
qed

lemma backslash_path_key:
  assumes "platform \<noteq> ''win32''" "CHR ''/'' \<notin> set root"
  shows "path_components platform (root @ [CHR 0x5C] @ rest) \<noteq> []"
    and "CHR 0x5C \<in> set (hd (path_components platform (root @ [CHR 0x5C] @ rest)))"
proof -
  have run: "\<forall>c \<in> set (root @ [CHR 0x5C]). \<not> is_sep platform c"
    using assms by (auto simp: is_sep_def)
  have e: "path_components platform (root @ [CHR 0x5C] @ rest)
      = split_runs_acc (is_sep platform) (root @ [CHR 0x5C]) rest"
    using split_runs_acc_run [OF run, of "[]" rest]
    by (simp add: path_components_def split_runs_def)
  show "path_components platform (root @ [CHR 0x5C] @ rest) \<noteq> []"
    unfolding e by (rule split_runs_acc_nonempty) simp
  show "CHR 0x5C \<in> set (hd (path_components platform (root @ [CHR 0x5C] @ rest)))"
    unfolding e by (simp add: split_runs_acc_hd)
qed

lemma posix_names_probe:
  assumes "platform \<noteq> ''win32''" "CHR ''/'' \<notin> set root" "posix_names fs"
  shows "fs (path_components platform (root @ [CHR 0x5C] @ rest)) = None"
  using backslash_path_key [OF assms(1,2), of rest] assms(3)
  unfolding posix_names_def by blast

lemma posix_names_update:
  "posix_names fs \<Longrightarrow> k \<noteq> [] \<Longrightarrow> CHR 0x5C \<notin> set (hd k) \<Longrightarrow> posix_names (fs(k \<mapsto> v))"
  by (simp add: posix_names_def)

lemma build_indices_posix_names:
  assumes "platform \<noteq> ''win32''"
  shows "posix_names fs \<Longrightarrow> path_components platform index_folder \<noteq> [] \<Longrightarrow>
     CHR 0x5C \<notin> set (hd (path_components platform index_folder)) \<Longrightarrow>
     posix_names (snd (snd (build_indices platform g index_node index_folder fs)))"
  using assms
proof (induction platform g index_node index_folder fs rule: build_indices.induct)
  case (1 platform g index_folder fs)
  then show ?case by simp
next
  case (2 platform g hash_digit entries tot rest index_folder fs)
  obtain err g1 written where w: "write_words g entries [] = (err, g1, written)"
    by (cases "write_words g entries []")
  let ?filename = "index_folder @ SEPARATOR platform @ [hash_digit] @ ''.txt''"
  let ?k = "path_components platform ?filename"
  show ?case
  proof (cases "write_file platform fs ?filename written")
    case (Inl e)
    with w 2 show ?thesis by (simp add: Let_def)
  next
    case (Inr fs1)
    have c: "?k = path_components platform index_folder
                  @ path_components platform ([hash_digit] @ ''.txt'')"
      using posix_components_append [OF "2.prems"(4), of index_folder "[hash_digit] @ ''.txt''"]
      by simp
    have k: "?k \<noteq> []" "CHR 0x5C \<notin> set (hd ?k)"
      unfolding c using "2.prems"(2,3) by simp_all
    from Inr have fs1: "fs1 = fs(?k \<mapsto> File written)"
      by (auto simp: write_file_def Let_def split: if_splits)
    have p1: "posix_names fs1"
      unfolding fs1 using "2.prems"(1) k by (rule posix_names_update)
    show ?thesis
    proof (cases err)
      case None
      have "posix_names (snd (snd (build_indices platform g1 rest index_folder fs1)))"
        using "2.IH" w Inr None p1 "2.prems"(2,3,4)
        by simp
      with w Inr None show ?thesis by (simp add: Let_def)
    next
      case (Some e)
      with w Inr p1 show ?thesis by (simp add: Let_def)
    qed
  qed
next
  case (3 platform g hash_digit children rest index_folder fs)
  let ?folder = "index_folder @ SEPARATOR platform @ [hash_digit]"
  let ?k = "path_components platform ?folder"
  show ?case
  proof (cases "mkdir platform fs ?folder")
    case (Inl e)
    with 3 show ?thesis by (simp add: Let_def)
  next
    case (Inr fs1)
    have c: "?k = path_components platform index_folder @ path_components platform [hash_digit]"
      using posix_components_append [OF "3.prems"(4), of index_folder "[hash_digit]"] by simp
    have k: "?k \<noteq> []" "CHR 0x5C \<notin> set (hd ?k)"
      unfolding c using "3.prems"(2,3) by simp_all
    from Inr have fs1: "fs1 = fs(?k \<mapsto> Dir)"
      by (auto simp: mkdir_def Let_def split: if_splits)
    have p1: "posix_names fs1"
      unfolding fs1 using "3.prems"(1) k by (rule posix_names_update)
    obtain err g1 fs2 where r: "build_indices platform g children ?folder fs1 = (err, g1, fs2)"
      by (cases "build_indices platform g children ?folder fs1")
    have p2: "posix_names fs2"
      using "3.IH"(1) [OF refl Inr p1 k "3.prems"(4)] r by simp
    show ?thesis
    proof (cases err)
      case None
      have "posix_names (snd (snd (build_indices platform g1 rest index_folder fs2)))"
        using "3.IH"(2) r Inr None p2 "3.prems"(2,3,4)
        by simp
      with r Inr None show ?thesis by (simp add: Let_def)
    next
      case (Some e)
      with r Inr p2 show ?thesis by (simp add: Let_def)
    qed
  qed
qed

lemma build_docs_posix_names:
  assumes "platform \<noteq> ''win32''"
  shows "posix_names fs \<Longrightarrow> path_components platform doc_folder \<noteq> [] \<Longrightarrow>
     CHR 0x5C \<notin> set (hd (path_components platform doc_folder)) \<Longrightarrow>
     posix_names (snd (snd (build_docs platform g doc_node doc_folder fs)))"
  using assms
proof (induction platform g doc_node doc_folder fs rule: build_docs.induct)
  case (1 platform g doc_folder fs)
  then show ?case by simp
next
  case (2 platform g hash_digit entries tot rest doc_folder fs)
  obtain err g1 written where w: "write_docs g entries [] = (err, g1, written)"
    by (cases "write_docs g entries []")
  let ?filename = "doc_folder @ SEPARATOR platform @ [hash_digit] @ ''.txt''"
  let ?k = "path_components platform ?filename"
  show ?case
  proof (cases "write_file platform fs ?filename written")
    case (Inl e)
    with w 2 show ?thesis by (simp add: Let_def)
  next
    case (Inr fs1)
    have c: "?k = path_components platform doc_folder
                  @ path_components platform ([hash_digit] @ ''.txt'')"
      using posix_components_append [OF "2.prems"(4), of doc_folder "[hash_digit] @ ''.txt''"]
      by simp
    have k: "?k \<noteq> []" "CHR 0x5C \<notin> set (hd ?k)"
      unfolding c using "2.prems"(2,3) by simp_all
    from Inr have fs1: "fs1 = fs(?k \<mapsto> File written)"
      by (auto simp: write_file_def Let_def split: if_splits)
    have p1: "posix_names fs1"
      unfolding fs1 using "2.prems"(1) k by (rule posix_names_update)
    show ?thesis
    proof (cases err)
      case None
      have "posix_names (snd (snd (build_docs platform g1 rest doc_folder fs1)))"
        using "2.IH" w Inr None p1 "2.prems"(2,3,4)
        by simp
      with w Inr None show ?thesis by (simp add: Let_def)
    next
      case (Some e)
      with w Inr p1 show ?thesis by (simp add: Let_def)
    qed
  qed
next
  case (3 platform g hash_digit children rest doc_folder fs)
  let ?folder = "doc_folder @ SEPARATOR platform @ [hash_digit]"
  let ?k = "path_components platform ?folder"
  show ?case
  proof (cases "mkdir platform fs ?folder")
    case (Inl e)
    with 3 show ?thesis by (simp add: Let_def)
  next
    case (Inr fs1)
    have c: "?k = path_components platform doc_folder @ path_components platform [hash_digit]"
      using posix_components_append [OF "3.prems"(4), of doc_folder "[hash_digit]"] by simp
    have k: "?k \<noteq> []" "CHR 0x5C \<notin> set (hd ?k)"
      unfolding c using "3.prems"(2,3) by simp_all
    from Inr have fs1: "fs1 = fs(?k \<mapsto> Dir)"
      by (auto simp: mkdir_def Let_def split: if_splits)
    have p1: "posix_names fs1"
      unfolding fs1 using "3.prems"(1) k by (rule posix_names_update)
    obtain err g1 fs2 where r: "build_docs platform g children ?folder fs1 = (err, g1, fs2)"
      by (cases "build_docs platform g children ?folder fs1")
    have p2: "posix_names fs2"
      using "3.IH"(1) [OF refl Inr p1 k "3.prems"(4)] r by simp
    show ?thesis
    proof (cases err)
      case None
      have "posix_names (snd (snd (build_docs platform g1 rest doc_folder fs2)))"
        using "3.IH"(2) r Inr None p2 "3.prems"(2,3,4)
        by simp
      with r Inr None show ?thesis by (simp add: Let_def)
    next
      case (Some e)
      with r Inr p2 show ?thesis by (simp add: Let_def)
    qed
  qed
qed

lemma posix_root_components:
  "platform \<noteq> ''win32'' \<Longrightarrow> path_components platform INDEX_FOLDER = [INDEX_FOLDER]"
  "platform \<noteq> ''win32'' \<Longrightarrow> path_components platform DOC_FOLDER = [DOC_FOLDER]"
  by (simp_all add: path_components_def split_runs_def is_sep_def INDEX_FOLDER_def DOC_FOLDER_def)

lemma search_word_posix_empty:
  assumes "platform \<noteq> ''win32''" "posix_names fs"
  shows "search_word platform fs H word = []"
proof -
  obtain d ds where e: "sha1_hash H (lower word) = d # ds"
    using sha1_hash_length [of H "lower word"] by (cases "sha1_hash H (lower word)") auto
  have r: "CHR ''/'' \<notin> set INDEX_FOLDER" by (simp add: INDEX_FOLDER_def)
  have 1: "fs (path_components platform (INDEX_FOLDER @ [CHR 0x5C] @ [d])) = None"
    using assms(1) r assms(2) by (rule posix_names_probe)
  have 2: "fs (path_components platform (INDEX_FOLDER @ [CHR 0x5C] @ ([d] @ ''.txt''))) = None"
    using assms(1) r assms(2) by (rule posix_names_probe)
  from 1 2 show ?thesis
    by (simp add: search_word_def e isdir_def isfile_def Let_def)
qed

lemma get_doc_content_posix_empty:
  assumes "platform \<noteq> ''win32''" "posix_names fs"
  shows "get_doc_content platform fs H doc_name = Inr []"
proof -
  obtain d ds where e: "sha1_hash H doc_name = d # ds"
    using sha1_hash_length [of H doc_name] by (cases "sha1_hash H doc_name") auto
  have r: "CHR ''/'' \<notin> set DOC_FOLDER" by (simp add: DOC_FOLDER_def)
  have 1: "fs (path_components platform (DOC_FOLDER @ [CHR 0x5C] @ [d])) = None"
    using assms(1) r assms(2) by (rule posix_names_probe)
  have 2: "fs (path_components platform (DOC_FOLDER @ [CHR 0x5C] @ ([d] @ ''.txt''))) = None"
    using assms(1) r assms(2) by (rule posix_names_probe)
  from 1 2 show ?thesis
    by (simp add: get_doc_content_def e isdir_def isfile_def Let_def)
qed

lemma probe_path_split: "ds \<noteq> [] \<Longrightarrow>
    \<exists>rest. probe_path root ds = root @ [CHR 0x5C] @ rest"
  by (cases ds) (simp_all add: probe_path_def)

lemma soul_tree_built:
  "build_indices ''linux'' module_globals soul_tree INDEX_FOLDER fresh_layout
     = (Some ZeroDivisionError, module_globals\<lparr>processed_word_count := 1\<rparr>,
        fresh_layout([''docname-index'', ''0.txt''] \<mapsto>
          File (''soul 1'' @ [CHR 0x0A] @ ''Soul'' @ [CHR 0x0A])))"
  by (simp add: soul_tree_def module_globals_def word_entry_def dec_digits.simps write_file_def
      parent_is_dir_def path_components_def split_runs_def is_sep_def SEPARATOR_def
      INDEX_FOLDER_def fresh_layout_def Let_def)

lemma soul_tree_built_win32:
  "build_indices ''win32'' module_globals soul_tree INDEX_FOLDER fresh_layout
     = (Some ZeroDivisionError, module_globals\<lparr>processed_word_count := 1\<rparr>,
        fresh_layout([''docname-index'', ''0.txt''] \<mapsto>
          File (''soul 1'' @ [CHR 0x0A] @ ''Soul'' @ [CHR 0x0A])))"
  by (simp add: soul_tree_def module_globals_def word_entry_def dec_digits.simps write_file_def
      parent_is_dir_def path_components_def split_runs_def is_sep_def SEPARATOR_def
      INDEX_FOLDER_def fresh_layout_def Let_def)

lemma soul_found_win32:
  "search_word ''win32''
     (fresh_layout([''docname-index'', ''0.txt''] \<mapsto>
          File (''soul 1'' @ [CHR 0x0A] @ ''Soul'' @ [CHR 0x0A]))) digests ''soul'' = [''Soul'']"
proof -
  have l: "lower ''soul'' = ''soul''" by (simp add: lower_def lower_char_def)
  show ?thesis
    by (simp add: search_word_def l digest_soul)
       (simp add: INDEX_FOLDER_def fresh_layout_def isdir_def isfile_def read_text_def
        path_components_def split_runs_def is_sep_def file_lines_def split_ws_def strip_def
        isspace_def l Let_def)
qed

text \<open>
  C10. On a platform other than \<^verbatim>\<open>win32\<close> the builder joins its paths with a slash.
  Start in a working directory in which no name holds a backslash, and let
  \<^verbatim>\<open>build_indices\<close> and then \<^verbatim>\<open>build_docs\<close> write any trees, to the end or to
  the exception that stops them. Then no path that a lookup probes, with or without
  \<^verbatim>\<open>.txt\<close>, names an entry of the file system, \<^verbatim>\<open>search_word\<close> returns the
  empty list for every word and \<^verbatim>\<open>get_doc_content\<close> for every document name.
\<close>

theorem lookups_miss_what_the_builder_wrote:
  fixes platform :: string and fs :: filesystem and g g' :: globals
    and index_node :: IndexNode and doc_node :: DocNode
  assumes "platform \<noteq> ''win32''" and "posix_names fs"
  defines "fs1 \<equiv> snd (snd (build_indices platform g index_node INDEX_FOLDER fs))"
  defines "fs2 \<equiv> snd (snd (build_docs platform g' doc_node DOC_FOLDER fs1))"
  shows "SEPARATOR platform = ''/''
    \<and> (ds \<noteq> [] \<longrightarrow>
          fs2 (path_components platform (probe_path INDEX_FOLDER ds)) = None
        \<and> fs2 (path_components platform (probe_path INDEX_FOLDER ds @ ''.txt'')) = None
        \<and> fs2 (path_components platform (probe_path DOC_FOLDER ds)) = None
        \<and> fs2 (path_components platform (probe_path DOC_FOLDER ds @ ''.txt'')) = None)
    \<and> search_word platform fs1 H word = []
    \<and> search_word platform fs2 H word = []
    \<and> get_doc_content platform fs2 H doc_name = Inr []"
proof -
  have i: "CHR 0x5C \<notin> set INDEX_FOLDER" "CHR 0x5C \<notin> set DOC_FOLDER"
    by (simp_all add: INDEX_FOLDER_def DOC_FOLDER_def)
  have p1: "posix_names fs1"
    unfolding fs1_def
    by (rule build_indices_posix_names [OF assms(1,2)])
       (simp_all add: posix_root_components [OF assms(1)] i)
  have p2: "posix_names fs2"
    unfolding fs2_def
    by (rule build_docs_posix_names [OF assms(1) p1])
       (simp_all add: posix_root_components [OF assms(1)] i)
  have a: "SEPARATOR platform = ''/''" using assms(1) by (simp add: SEPARATOR_def)
  have b: "fs2 (path_components platform (probe_path INDEX_FOLDER ds)) = None
        \<and> fs2 (path_components platform (probe_path INDEX_FOLDER ds @ ''.txt'')) = None
        \<and> fs2 (path_components platform (probe_path DOC_FOLDER ds)) = None
        \<and> fs2 (path_components platform (probe_path DOC_FOLDER ds @ ''.txt'')) = None"
    if "ds \<noteq> []"
  proof -
    from that obtain rest where r: "probe_path INDEX_FOLDER ds = INDEX_FOLDER @ [CHR 0x5C] @ rest"
      using probe_path_split by blast
    from that obtain rest' where r': "probe_path DOC_FOLDER ds = DOC_FOLDER @ [CHR 0x5C] @ rest'"
      using probe_path_split by blast
    have j: "CHR ''/'' \<notin> set INDEX_FOLDER" "CHR ''/'' \<notin> set DOC_FOLDER"
      by (simp_all add: INDEX_FOLDER_def DOC_FOLDER_def)
    show ?thesis
      using posix_names_probe [OF assms(1) j(1) p2, of rest]
        posix_names_probe [OF assms(1) j(1) p2, of "rest @ ''.txt''"]
        posix_names_probe [OF assms(1) j(2) p2, of rest']
        posix_names_probe [OF assms(1) j(2) p2, of "rest' @ ''.txt''"]
      by (simp add: r r')
  qed
  from a b search_word_posix_empty [OF assms(1) p1] search_word_posix_empty [OF assms(1) p2]
    get_doc_content_posix_empty [OF assms(1) p2]
  show ?thesis by blast
qed

theorem lookups_miss_what_the_builder_wrote_witness:
  "snd (snd (build_indices ''linux'' module_globals soul_tree INDEX_FOLDER fresh_layout))
       [''docname-index'', ''0.txt''] = Some (File (''soul 1'' @ [CHR 0x0A] @ ''Soul'' @ [CHR 0x0A]))
   \<and> search_word ''linux''
        (snd (snd (build_indices ''linux'' module_globals soul_tree INDEX_FOLDER fresh_layout)))
        digests ''soul'' = []
   \<and> search_word ''win32''
        (snd (snd (build_indices ''win32'' module_globals soul_tree INDEX_FOLDER fresh_layout)))
        digests ''soul'' = [''Soul'']"
proof -
  have h1: "''linux'' \<noteq> ''win32''" by simp
  have h2: "posix_names fresh_layout"
    by (auto simp: posix_names_def fresh_layout_def split: if_splits)
  have 1: "search_word ''linux''
        (snd (snd (build_indices ''linux'' module_globals soul_tree INDEX_FOLDER fresh_layout)))
        digests ''soul'' = []"
    using lookups_miss_what_the_builder_wrote [OF h1 h2, where g = module_globals
        and index_node = soul_tree and H = digests and word = "''soul''"]
    by blast
  have 2: "snd (snd (build_indices ''linux'' module_globals soul_tree INDEX_FOLDER fresh_layout))
       [''docname-index'', ''0.txt''] = Some (File (''soul 1'' @ [CHR 0x0A] @ ''Soul'' @ [CHR 0x0A]))"
    by (simp only: soul_tree_built) simp
  have 3: "search_word ''win32''
        (snd (snd (build_indices ''win32'' module_globals soul_tree INDEX_FOLDER fresh_layout)))
        digests ''soul'' = [''Soul'']"
    by (simp only: soul_tree_built_win32 snd_conv soul_found_win32)
  from 1 2 3 show ?thesis by blast
qed

subsection \<open>The running total\<close>








lemma child_at_update: "child_at (AList.update d v tree) d = v"
  by (simp add: child_at_def update_conv')


lemma digest_Soul: "sha1_hash digests ''Soul'' = ''0cae74dd2ee63f37ca2c7718b51e9671f8a0ad74''"
  by (simp add: sha1_hash_def digests_def hex_digit_def upt_40)





subsection \<open>The split of a leaf\<close>






lemma child_at_internal_update:
  "(\<exists>children. child_at (AList.update d (Internal c) tree) d = Internal children)"
  "\<not> (\<exists>children. child_at (AList.update d (Leaf es t) tree) d = Internal children)"
  by (simp_all add: child_at_update)




subsection \<open>The text of a leaf file\<close>

lemma write_words_text:
  "\<exists>n \<le> length entries.
     snd (snd (write_words g entries written))
       = written @ concat (map (\<lambda>(word, names). word_entry word names) (take n entries))
     \<and> (word_count_1percent g \<noteq> 0 \<longrightarrow> n = length entries)"
proof (induction entries arbitrary: g written)
  case Nil
  then show ?case by simp
next
  case (Cons e rest)
  obtain word names where e: "e = (word, names)" by (cases e)
  let ?g1 = "g\<lparr>processed_word_count := processed_word_count g + 1\<rparr>"
  show ?case
  proof (cases "word_count_1percent g = 0")
    case True
    have "snd (snd (write_words g (e # rest) written))
        = written @ concat (map (\<lambda>(word, names). word_entry word names) (take 1 (e # rest)))"
      using True e by (simp add: Let_def)
    with True show ?thesis by (intro exI [of _ 1]) simp
  next
    case False
    from Cons.IH [of ?g1 "written @ word_entry word names"] obtain n where n: "n \<le> length rest"
      "snd (snd (write_words ?g1 rest (written @ word_entry word names)))
        = (written @ word_entry word names)
          @ concat (map (\<lambda>(word, names). word_entry word names) (take n rest))"
      "word_count_1percent ?g1 \<noteq> 0 \<longrightarrow> n = length rest"
      by blast
    have "snd (snd (write_words g (e # rest) written))
        = written @ concat (map (\<lambda>(word, names). word_entry word names) (take (Suc n) (e # rest)))"
      using False e n(2) by (simp add: Let_def)
    with n(1,3) False show ?thesis by (intro exI [of _ "Suc n"]) simp
  qed
qed

lemma write_docs_text:
  "\<exists>n \<le> length entries.
     snd (snd (write_docs g entries written))
       = written @ concat (map (\<lambda>(doc_name, doc_content). doc_entry doc_name doc_content)
                          (take n entries))
     \<and> (doc_count_1percent g \<noteq> 0 \<longrightarrow> n = length entries)"
proof (induction entries arbitrary: g written)
  case Nil
  then show ?case by simp
next
  case (Cons e rest)
  obtain doc_name doc_content where e: "e = (doc_name, doc_content)" by (cases e)
  let ?g1 = "g\<lparr>processed_doc_count := processed_doc_count g + 1\<rparr>"
  show ?case
  proof (cases "doc_count_1percent g = 0")
    case True
    have "snd (snd (write_docs g (e # rest) written))
        = written @ concat (map (\<lambda>(doc_name, doc_content). doc_entry doc_name doc_content)
                           (take 1 (e # rest)))"
      using True e by (simp add: Let_def)
    with True show ?thesis by (intro exI [of _ 1]) simp
  next
    case False
    from Cons.IH [of ?g1 "written @ doc_entry doc_name doc_content"] obtain n
      where n: "n \<le> length rest"
      "snd (snd (write_docs ?g1 rest (written @ doc_entry doc_name doc_content)))
        = (written @ doc_entry doc_name doc_content)
          @ concat (map (\<lambda>(doc_name, doc_content). doc_entry doc_name doc_content) (take n rest))"
      "doc_count_1percent ?g1 \<noteq> 0 \<longrightarrow> n = length rest"
      by blast
    have "snd (snd (write_docs g (e # rest) written))
        = written @ concat (map (\<lambda>(doc_name, doc_content). doc_entry doc_name doc_content)
                           (take (Suc n) (e # rest)))"
      using False e n(2) by (simp add: Let_def)
    with n(1,3) False show ?thesis by (intro exI [of _ "Suc n"]) simp
  qed
qed

lemma build_indices_leaf_file:
  assumes "write_file platform fs (index_folder @ SEPARATOR platform @ [hash_digit] @ ''.txt'') w
           = Inr fs1"
  shows "snd (snd (build_indices platform g [(hash_digit, Leaf entries tot)] index_folder fs))
           (path_components platform (index_folder @ SEPARATOR platform @ [hash_digit] @ ''.txt''))
         = Some (File (snd (snd (write_words g entries []))))"
proof -
  obtain err g1 written where w: "write_words g entries [] = (err, g1, written)"
    by (cases "write_words g entries []")
  from assms have ok: "write_file platform fs
      (index_folder @ SEPARATOR platform @ [hash_digit] @ ''.txt'') written
      = Inr (fs(path_components platform (index_folder @ SEPARATOR platform @ [hash_digit] @ ''.txt'')
               \<mapsto> File written))"
    by (auto simp: write_file_def Let_def split: if_splits)
  show ?thesis
    using w ok by (cases err) (simp_all add: Let_def)
qed

lemma build_docs_leaf_file:
  assumes "write_file platform fs (doc_folder @ SEPARATOR platform @ [hash_digit] @ ''.txt'') w
           = Inr fs1"
  shows "snd (snd (build_docs platform g [(hash_digit, Leaf entries tot)] doc_folder fs))
           (path_components platform (doc_folder @ SEPARATOR platform @ [hash_digit] @ ''.txt''))
         = Some (File (snd (snd (write_docs g entries []))))"
proof -
  obtain err g1 written where w: "write_docs g entries [] = (err, g1, written)"
    by (cases "write_docs g entries []")
  from assms have ok: "write_file platform fs
      (doc_folder @ SEPARATOR platform @ [hash_digit] @ ''.txt'') written
      = Inr (fs(path_components platform (doc_folder @ SEPARATOR platform @ [hash_digit] @ ''.txt'')
               \<mapsto> File written))"
    by (auto simp: write_file_def Let_def split: if_splits)
  show ?thesis
    using w ok by (cases err) (simp_all add: Let_def)
qed

lemma soul_doc_tree_built:
  "build_docs ''linux'' module_globals soul_doc_tree DOC_FOLDER fresh_layout
     = (Some ZeroDivisionError, module_globals\<lparr>processed_doc_count := 1\<rparr>,
        fresh_layout([''indexed-docs'', ''0.txt''] \<mapsto>
          File (''Soul'' @ [CHR 0x0A] @ ''0 First.'' @ [CHR 0x0A] @ ''1 Second.'' @ [CHR 0x0A])))"
  by (simp add: soul_doc_tree_def two_sentences_def module_globals_def doc_entry_def str_int_def
      dec_digits.simps transform_brackets_def write_file_def
      parent_is_dir_def path_components_def split_runs_def is_sep_def SEPARATOR_def
      DOC_FOLDER_def fresh_layout_def Let_def)

text \<open>
  C4, amended. The text that \<^verbatim>\<open>build_indices\<close> writes into a leaf file is, for the
  keys it writes, in the order of the leaf: a header line made of the word, a space and
  the number of document names, then the document names in ascending order, one to a
  line. The text that \<^verbatim>\<open>build_docs\<close> writes is, for the keys it writes: a header
  line made of the document name alone, then for each sentence, in ascending order of
  the sentence numbers, the number, a space and the sentence with the brackets
  restored, with no line end added. With a percentage step other than zero all keys
  of the leaf are written. The text is the content of the leaf's file whenever the file
  can be opened.
\<close>

theorem leaf_file_format:
  fixes names :: NameSet and doc_content :: Sentences
  shows "(\<exists>n \<le> length entries.
        snd (snd (write_words g entries []))
          = concat (map (\<lambda>(word, names).
                word @ '' '' @ dec_digits (length names) @ [CHR 0x0A]
                @ concat (map (\<lambda>doc_name. doc_name @ [CHR 0x0A]) (sort names))) (take n entries))
        \<and> (word_count_1percent g \<noteq> 0 \<longrightarrow> n = length entries))
    \<and> (\<exists>n \<le> length sent_entries.
        snd (snd (write_docs g sent_entries []))
          = concat (map (\<lambda>(doc_name, doc_content).
                doc_name @ [CHR 0x0A]
                @ concat (map (\<lambda>(sent_no, sentence).
                      str_int sent_no @ '' '' @ transform_brackets sentence)
                    (sort_key fst doc_content))) (take n sent_entries))
        \<and> (doc_count_1percent g \<noteq> 0 \<longrightarrow> n = length sent_entries))
    \<and> sorted (sort names) \<and> length (sort names) = length names \<and> set (sort names) = set names
    \<and> sorted (map fst (sort_key fst doc_content))
    \<and> length (sort_key fst doc_content) = length doc_content
    \<and> set (sort_key fst doc_content) = set doc_content
    \<and> (\<not> isl (write_file platform fs
                (index_folder @ SEPARATOR platform @ [hash_digit] @ ''.txt'') [])
        \<longrightarrow> snd (snd (build_indices platform g [(hash_digit, Leaf entries tot)] index_folder fs))
              (path_components platform
                 (index_folder @ SEPARATOR platform @ [hash_digit] @ ''.txt''))
            = Some (File (snd (snd (write_words g entries [])))))
    \<and> (\<not> isl (write_file platform fs
                (doc_folder @ SEPARATOR platform @ [hash_digit] @ ''.txt'') [])
        \<longrightarrow> snd (snd (build_docs platform g [(hash_digit, Leaf sent_entries sent_tot)] doc_folder fs))
              (path_components platform
                 (doc_folder @ SEPARATOR platform @ [hash_digit] @ ''.txt''))
            = Some (File (snd (snd (write_docs g sent_entries [])))))"
proof -
  have 1: "\<exists>n \<le> length entries.
        snd (snd (write_words g entries []))
          = concat (map (\<lambda>(word, names).
                word @ '' '' @ dec_digits (length names) @ [CHR 0x0A]
                @ concat (map (\<lambda>doc_name. doc_name @ [CHR 0x0A]) (sort names))) (take n entries))
        \<and> (word_count_1percent g \<noteq> 0 \<longrightarrow> n = length entries)"
    using write_words_text [of entries g "[]"] by (simp add: word_entry_def)
  have 2: "\<exists>n \<le> length sent_entries.
        snd (snd (write_docs g sent_entries []))
          = concat (map (\<lambda>(doc_name, doc_content).
                doc_name @ [CHR 0x0A]
                @ concat (map (\<lambda>(sent_no, sentence).
                      str_int sent_no @ '' '' @ transform_brackets sentence)
                    (sort_key fst doc_content))) (take n sent_entries))
        \<and> (doc_count_1percent g \<noteq> 0 \<longrightarrow> n = length sent_entries)"
    using write_docs_text [of sent_entries g "[]"] by (simp add: doc_entry_def)
  have 3: "sorted (sort names)" "length (sort names) = length names" "set (sort names) = set names"
    "sorted (map fst (sort_key fst doc_content))"
    "length (sort_key fst doc_content) = length doc_content"
    "set (sort_key fst doc_content) = set doc_content"
    by simp_all
  have 4: "snd (snd (build_indices platform g [(hash_digit, Leaf entries tot)] index_folder fs))
              (path_components platform
                 (index_folder @ SEPARATOR platform @ [hash_digit] @ ''.txt''))
            = Some (File (snd (snd (write_words g entries []))))"
    if "\<not> isl (write_file platform fs
                (index_folder @ SEPARATOR platform @ [hash_digit] @ ''.txt'') [])"
  proof -
    from that obtain fs1 where "write_file platform fs
        (index_folder @ SEPARATOR platform @ [hash_digit] @ ''.txt'') [] = Inr fs1"
      by (cases "write_file platform fs
        (index_folder @ SEPARATOR platform @ [hash_digit] @ ''.txt'') []") auto
    then show ?thesis by (rule build_indices_leaf_file)
  qed
  have 5: "snd (snd (build_docs platform g [(hash_digit, Leaf sent_entries sent_tot)] doc_folder fs))
              (path_components platform
                 (doc_folder @ SEPARATOR platform @ [hash_digit] @ ''.txt''))
            = Some (File (snd (snd (write_docs g sent_entries []))))"
    if "\<not> isl (write_file platform fs
                (doc_folder @ SEPARATOR platform @ [hash_digit] @ ''.txt'') [])"
  proof -
    from that obtain fs1 where "write_file platform fs
        (doc_folder @ SEPARATOR platform @ [hash_digit] @ ''.txt'') [] = Inr fs1"
      by (cases "write_file platform fs
        (doc_folder @ SEPARATOR platform @ [hash_digit] @ ''.txt'') []") auto
    then show ?thesis by (rule build_docs_leaf_file)
  qed
  from 1 2 3 4 5 show ?thesis by blast
qed

text \<open>
  C4, as the specification states it, fails for the content tree: line 230 writes the
  document name alone as the header line, without the number of sentences.
\<close>

theorem content_header_has_no_size_counterexample:
  "build_docs ''linux'' module_globals
       [(CHR ''0'', Leaf [(''Soul'', [(1, ''Second.'' @ [CHR 0x0A]), (0, ''First.'' @ [CHR 0x0A])])] 3)]
       DOC_FOLDER fresh_layout
     = (Some ZeroDivisionError, module_globals\<lparr>processed_doc_count := 1\<rparr>,
        fresh_layout([''indexed-docs'', ''0.txt''] \<mapsto>
          File (''Soul'' @ [CHR 0x0A] @ ''0 First.'' @ [CHR 0x0A] @ ''1 Second.'' @ [CHR 0x0A])))
   \<and> hd (file_lines (''Soul'' @ [CHR 0x0A] @ ''0 First.'' @ [CHR 0x0A] @ ''1 Second.'' @ [CHR 0x0A]))
       = ''Soul'' @ [CHR 0x0A]
   \<and> ''Soul'' @ [CHR 0x0A] \<noteq> ''Soul 2'' @ [CHR 0x0A]"
  using soul_doc_tree_built
  by (simp add: soul_doc_tree_def two_sentences_def file_lines_def)

theorem leaf_file_format_witness:
  "snd (snd (write_words (module_globals\<lparr>word_count_1percent := 1\<rparr>)
       [(''soul'', [''Soul_Food'', ''Soul'']), (''food'', [''Soul_Food''])] []))
     = ''soul 2'' @ [CHR 0x0A] @ ''Soul'' @ [CHR 0x0A] @ ''Soul_Food'' @ [CHR 0x0A]
       @ ''food 1'' @ [CHR 0x0A] @ ''Soul_Food'' @ [CHR 0x0A]
   \<and> snd (snd (write_docs (module_globals\<lparr>word_count_1percent := 1\<rparr>)
       [(''Soul'', two_sentences)] []))
     = ''Soul'' @ [CHR 0x0A] @ ''0 First.'' @ [CHR 0x0A] @ ''1 Second.'' @ [CHR 0x0A]
   \<and> snd (snd (build_indices ''linux'' (module_globals\<lparr>word_count_1percent := 1\<rparr>)
         [(CHR ''0'', Leaf [(''soul'', [''Soul_Food'', ''Soul'']), (''food'', [''Soul_Food''])] 3)]
         INDEX_FOLDER fresh_layout))
       (path_components ''linux'' (INDEX_FOLDER @ SEPARATOR ''linux'' @ [CHR ''0''] @ ''.txt''))
     = Some (File (''soul 2'' @ [CHR 0x0A] @ ''Soul'' @ [CHR 0x0A] @ ''Soul_Food'' @ [CHR 0x0A]
       @ ''food 1'' @ [CHR 0x0A] @ ''Soul_Food'' @ [CHR 0x0A]))"
proof -
  have w: "write_file ''linux'' fresh_layout (INDEX_FOLDER @ SEPARATOR ''linux'' @ [CHR ''0''] @ ''.txt'') []
      = Inr (fresh_layout([''docname-index'', ''0.txt''] \<mapsto> File []))"
    by (simp add: write_file_def parent_is_dir_def path_components_def split_runs_def is_sep_def
        SEPARATOR_def INDEX_FOLDER_def fresh_layout_def Let_def)
  have w': "\<not> isl (write_file ''linux'' fresh_layout
      (INDEX_FOLDER @ SEPARATOR ''linux'' @ [CHR ''0''] @ ''.txt'') [])"
    by (simp only: w) simp
  have 1: "snd (snd (write_words (module_globals\<lparr>word_count_1percent := 1\<rparr>)
       [(''soul'', [''Soul_Food'', ''Soul'']), (''food'', [''Soul_Food''])] []))
     = ''soul 2'' @ [CHR 0x0A] @ ''Soul'' @ [CHR 0x0A] @ ''Soul_Food'' @ [CHR 0x0A]
       @ ''food 1'' @ [CHR 0x0A] @ ''Soul_Food'' @ [CHR 0x0A]"
    by (simp add: module_globals_def word_entry_def dec_digits.simps Let_def)
  have 2: "snd (snd (write_docs (module_globals\<lparr>word_count_1percent := 1\<rparr>)
       [(''Soul'', two_sentences)] []))
     = ''Soul'' @ [CHR 0x0A] @ ''0 First.'' @ [CHR 0x0A] @ ''1 Second.'' @ [CHR 0x0A]"
    by (simp add: module_globals_def doc_entry_def two_sentences_def str_int_def dec_digits.simps
        transform_brackets_def Let_def)
  from leaf_file_format [where platform = "''linux''" and fs = fresh_layout
      and index_folder = INDEX_FOLDER and hash_digit = "CHR ''0''"
      and g = "module_globals\<lparr>word_count_1percent := 1\<rparr>"
      and entries = "[(''soul'', [''Soul_Food'', ''Soul'']), (''food'', [''Soul_Food''])]"
      and tot = 3 and sent_entries = "[(''Soul'', two_sentences)]" and sent_tot = 3
      and doc_folder = DOC_FOLDER and names = "[''Soul_Food'', ''Soul'']"
      and doc_content = two_sentences] w'
  have 3: "snd (snd (build_indices ''linux'' (module_globals\<lparr>word_count_1percent := 1\<rparr>)
         [(CHR ''0'', Leaf [(''soul'', [''Soul_Food'', ''Soul'']), (''food'', [''Soul_Food''])] 3)]
         INDEX_FOLDER fresh_layout))
       (path_components ''linux'' (INDEX_FOLDER @ SEPARATOR ''linux'' @ [CHR ''0''] @ ''.txt''))
     = Some (File (snd (snd (write_words (module_globals\<lparr>word_count_1percent := 1\<rparr>)
       [(''soul'', [''Soul_Food'', ''Soul'']), (''food'', [''Soul_Food''])] []))))"
    by blast
  from 1 2 3 show ?thesis by (simp only:) 
qed

subsection \<open>Failing inputs of the build\<close>

lemma soul_doc_tree_built_win32:
  "build_docs ''win32'' module_globals soul_doc_tree DOC_FOLDER fresh_layout
     = (Some ZeroDivisionError, module_globals\<lparr>processed_doc_count := 1\<rparr>,
        fresh_layout([''indexed-docs'', ''0.txt''] \<mapsto>
          File (''Soul'' @ [CHR 0x0A] @ ''0 First.'' @ [CHR 0x0A] @ ''1 Second.'' @ [CHR 0x0A])))"
  by (simp add: soul_doc_tree_def two_sentences_def module_globals_def doc_entry_def str_int_def
      dec_digits.simps transform_brackets_def write_file_def
      parent_is_dir_def path_components_def split_runs_def is_sep_def SEPARATOR_def
      DOC_FOLDER_def fresh_layout_def Let_def)

lemma soul_doc_found_win32:
  "get_doc_content ''win32''
     (fresh_layout([''indexed-docs'', ''0.txt''] \<mapsto>
          File (''Soul'' @ [CHR 0x0A] @ ''0 First.'' @ [CHR 0x0A] @ ''1 Second.'' @ [CHR 0x0A])))
     digests ''Soul'' = Inr [(0, ''First.''), (1, ''Second.'')]"
  by (simp add: get_doc_content_def digest_Soul)
     (simp add: DOC_FOLDER_def fresh_layout_def isdir_def isfile_def read_text_def
      path_components_def split_runs_def is_sep_def file_lines_def strip_def isspace_def
      py_int_def isdigit_def digits_value_def Let_def)

lemma soul_doc_missed_linux:
  "get_doc_content ''linux''
     (fresh_layout([''indexed-docs'', ''0.txt''] \<mapsto>
          File (''Soul'' @ [CHR 0x0A] @ ''0 First.'' @ [CHR 0x0A] @ ''1 Second.'' @ [CHR 0x0A])))
     digests ''Soul'' = Inr []"
  by (simp add: get_doc_content_def digest_Soul)
     (simp add: DOC_FOLDER_def fresh_layout_def isdir_def isfile_def
      path_components_def split_runs_def is_sep_def Let_def)

text \<open>
  C9 at a failing input. The document \<^verbatim>\<open>Soul\<close> is given its sentence 1 before its
  sentence 0. \<^verbatim>\<open>add_doc_content\<close> raises NameError, so the build indexes nothing.
  Handed the tree that the insert was to make, \<^verbatim>\<open>build_docs\<close> writes the two
  sentences in ascending order; \<^verbatim>\<open>get_doc_content\<close> returns them so on
  \<^verbatim>\<open>win32\<close> and returns nothing anywhere else, where its backslash is no separator.
\<close>

theorem sentences_in_order_failing_input:
  "add_doc_content digests module_globals ''Soul''
       [(1, ''Second.'' @ [CHR 0x0A]), (0, ''First.'' @ [CHR 0x0A])] [] 0
     = Inl (NameError ''doc_dict'')
   \<and> get_doc_content ''linux''
        (snd (snd (build_docs ''linux'' module_globals soul_doc_tree DOC_FOLDER fresh_layout)))
        digests ''Soul'' = Inr []
   \<and> get_doc_content ''win32''
        (snd (snd (build_docs ''win32'' module_globals soul_doc_tree DOC_FOLDER fresh_layout)))
        digests ''Soul'' = Inr [(0, ''First.''), (1, ''Second.'')]"
proof -
  have 1: "add_doc_content digests module_globals ''Soul''
       [(1, ''Second.'' @ [CHR 0x0A]), (0, ''First.'' @ [CHR 0x0A])] [] 0
     = Inl (NameError ''doc_dict'')"
    by (simp add: add_doc_content_def sha1_hash_length)
  have 2: "get_doc_content ''linux''
        (snd (snd (build_docs ''linux'' module_globals soul_doc_tree DOC_FOLDER fresh_layout)))
        digests ''Soul'' = Inr []"
    by (simp only: soul_doc_tree_built snd_conv soul_doc_missed_linux)
  have 3: "get_doc_content ''win32''
        (snd (snd (build_docs ''win32'' module_globals soul_doc_tree DOC_FOLDER fresh_layout)))
        digests ''Soul'' = Inr [(0, ''First.''), (1, ''Second.'')]"
    by (simp only: soul_doc_tree_built_win32 snd_conv soul_doc_found_win32)
  from 1 2 3 show ?thesis by blast
qed

text \<open>
  C1 at a failing input. The first insert of a build, of the words of the document name
  \<^verbatim>\<open>Soul_Food\<close> into the empty tree, raises NameError; nothing is built, and the
  lookup of \<^verbatim>\<open>soul\<close> finds nothing on any platform.
\<close>

theorem round_trip_failing_input:
  "add_doc_name digests module_globals ''Soul_Food'' [] = Inl (NameError ''index_node'')
   \<and> search_word ''win32'' (\<lambda>p. None) digests ''soul'' = []
   \<and> search_word ''linux'' (\<lambda>p. None) digests ''soul'' = []"
proof -
  have t: "split_runs (\<lambda>c. \<not> (isword c \<and> c \<noteq> CHR ''_'')) ''Soul_Food'' = [''Soul'', ''Food'']"
    by (simp add: split_runs_def isword_def islower_def isupper_def isdigit_def)
  have l: "map lower [''Soul'', ''Food''] = [''soul'', ''food'']"
    by (simp add: lower_def lower_char_def)
  have 1: "add_doc_name digests module_globals ''Soul_Food'' [] = Inl (NameError ''index_node'')"
    unfolding add_doc_name_def
    by (simp only: t l) (simp add: add_doc_name_word_def sha1_hash_length)
  have l2: "lower ''soul'' = ''soul''" by (simp add: lower_def lower_char_def)
  have 2: "search_word p (\<lambda>p. None) digests ''soul'' = []" for p
    by (simp add: search_word_def l2 digest_soul isdir_def isfile_def Let_def)
  from 1 2 show ?thesis by blast
qed

end
